theory Spec2Isabelle
  imports Main "HOL-Library.Word" "HOL-Library.AList" "HOL-Library.List_Lexorder"
begin

section \<open>Frame codec\<close>

text \<open>
  Bytes are 8-bit words; a \<^verbatim>\<open>bytes\<close> or \<^verbatim>\<open>bytearray\<close> value is a list of them.
  \<^verbatim>\<open>START_BLOCK = b"\x0B"\<close> and \<^verbatim>\<open>END_BLOCK = b"\x1C\x0D"\<close>.
\<close>

type_synonym byte = "8 word"

definition START_BLOCK :: "byte list" where
  "START_BLOCK = [0x0B]"

definition END_BLOCK :: "byte list" where
  "END_BLOCK = [0x1C, 0x0D]"

text \<open>\<^verbatim>\<open>frame_message(payload)\<close>: \<^verbatim>\<open>START_BLOCK + payload + END_BLOCK\<close>.\<close>

definition frame_message :: "byte list \<Rightarrow> byte list" where
  "frame_message payload = START_BLOCK @ payload @ END_BLOCK"

text \<open>
  \<^verbatim>\<open>find_sub sub xs\<close> is the lowest offset at which \<^verbatim>\<open>sub\<close> occurs in \<^verbatim>\<open>xs\<close>
  (Python's \<^verbatim>\<open>xs.find(sub)\<close>, with \<^verbatim>\<open>None\<close> for -1). \<^verbatim>\<open>index\<close> is
  \<^verbatim>\<open>buffer.index(sub, start)\<close> for a start that is not negative; \<^verbatim>\<open>None\<close> stands for
  the \<^verbatim>\<open>ValueError\<close> the source catches.
\<close>

fun find_sub :: "'a list \<Rightarrow> 'a list \<Rightarrow> nat option" where
  "find_sub sub [] = (if sub = [] then Some 0 else None)"
| "find_sub sub (x # xs) =
     (if take (length sub) (x # xs) = sub then Some 0
      else map_option Suc (find_sub sub xs))"

definition index :: "'a list \<Rightarrow> 'a list \<Rightarrow> nat \<Rightarrow> nat option" where
  "index buffer sub start =
     (if length buffer < start then None
      else map_option (\<lambda>i. start + i) (find_sub sub (drop start buffer)))"

lemma find_sub_Some:
  "find_sub sub xs = Some i \<Longrightarrow>
     i + length sub \<le> length xs \<and> take (length sub) (drop i xs) = sub"
proof (induction xs arbitrary: i)
  case Nil
  then show ?case by (simp split: if_splits)
next
  case (Cons x xs)
  show ?case
  proof (cases "take (length sub) (x # xs) = sub")
    case True
    with Cons.prems have "i = 0" by simp
    moreover have "length (take (length sub) (x # xs)) = length sub"
      using arg_cong [OF True, of length] .
    then have "length sub \<le> length (x # xs)"
      by (simp add: min_def split: if_splits)
    ultimately show ?thesis using True by simp
  next
    case False
    with Cons.prems obtain j where j: "find_sub sub xs = Some j" "i = Suc j"
      by auto
    from Cons.IH [OF j(1)] j(2) show ?thesis by simp
  qed
qed

lemma index_Some:
  "index buffer sub start = Some e \<Longrightarrow>
     start \<le> e \<and> e + length sub \<le> length buffer
     \<and> take (length sub) (drop e buffer) = sub"
proof -
  assume a: "index buffer sub start = Some e"
  then have le: "start \<le> length buffer"
    by (simp add: index_def split: if_splits)
  from a obtain i where i: "find_sub sub (drop start buffer) = Some i" "e = start + i"
    by (auto simp: index_def split: if_splits)
  from find_sub_Some [OF i(1)]
  have b: "i + length sub \<le> length buffer - start"
    and t: "take (length sub) (drop i (drop start buffer)) = sub"
    by simp_all
  from b le i(2) have "e + length sub \<le> length buffer" by linarith
  moreover from t i(2) have "take (length sub) (drop e buffer) = sub"
    by (simp add: add.commute)
  ultimately show ?thesis using i(2) by simp
qed

text \<open>
  \<^verbatim>\<open>extract_frames(buffer)\<close>. The \<^verbatim>\<open>while True\<close> loop is \<^verbatim>\<open>extract_loop\<close>, on the
  list of frames collected so far and the buffer; the source mutates the caller's
  bytearray, so the model returns the buffer that is left together with the frames.
  Each round deletes at least the end marker, which is the termination measure.
\<close>

function extract_loop :: "byte list list \<Rightarrow> byte list \<Rightarrow> byte list list \<times> byte list" where
  "extract_loop frames buffer =
     (case index buffer START_BLOCK 0 of
        None \<Rightarrow> (frames, buffer)
      | Some start \<Rightarrow>
          (case index buffer END_BLOCK (start + 1) of
             None \<Rightarrow> (frames, buffer)
           | Some endp \<Rightarrow>
               extract_loop
                 (frames @ [take (endp - (start + 1)) (drop (start + 1) buffer)])
                 (drop (endp + length END_BLOCK) buffer)))"
  by pat_completeness auto
termination
proof (relation "measure (\<lambda>(frames, buffer). length buffer)")
  show "wf (measure (\<lambda>(frames, buffer). length buffer))" by simp
next
  fix frames :: "byte list list" and buffer :: "byte list" and start endp :: nat
  assume "index buffer END_BLOCK (start + 1) = Some endp"
  from index_Some [OF this]
  have "endp + 2 \<le> length buffer" by (simp add: END_BLOCK_def)
  then show "((frames @ [take (endp - (start + 1)) (drop (start + 1) buffer)],
      drop (endp + length END_BLOCK) buffer), (frames, buffer))
    \<in> measure (\<lambda>(frames, buffer). length buffer)"
    by (simp add: END_BLOCK_def)
qed

definition extract_frames :: "byte list \<Rightarrow> byte list list \<times> byte list" where
  "extract_frames buffer = extract_loop [] buffer"

text \<open>\<^verbatim>\<open>contains sub xs\<close> is Python's \<^verbatim>\<open>sub in xs\<close> on bytes and on strings.\<close>

definition contains :: "'a list \<Rightarrow> 'a list \<Rightarrow> bool" where
  "contains sub xs = (find_sub sub xs \<noteq> None)"

declare extract_loop.simps [simp del]

lemma take_append_le: "n \<le> length xs \<Longrightarrow> take n (xs @ ys) = take n xs"
  by simp

lemma find_sub_append:
  "find_sub sub q = Some i \<Longrightarrow> find_sub sub (q @ r) = Some i"
proof (induction q arbitrary: i)
  case Nil
  then show ?case by (cases r) (simp_all split: if_splits)
next
  case (Cons x q)
  show ?case
  proof (cases "take (length sub) (x # q) = sub")
    case True
    have "length (take (length sub) (x # q)) = length sub"
      using arg_cong [OF True, of length] .
    then have "length sub \<le> length (x # q)"
      by (simp add: min_def split: if_splits)
    then have "take (length sub) ((x # q) @ r) = take (length sub) (x # q)"
      by (rule take_append_le)
    with True Cons.prems show ?thesis by simp
  next
    case False
    with Cons.prems obtain j where j: "find_sub sub q = Some j" "i = Suc j"
      by auto
    from find_sub_Some [OF j(1)] have "length sub \<le> length (x # q)" by simp
    then have "take (length sub) ((x # q) @ r) = take (length sub) (x # q)"
      by (rule take_append_le)
    with False Cons.IH [OF j(1)] j show ?thesis by simp
  qed
qed

lemma find_sub_occurs:
  "find_sub sub (as @ sub @ bs) \<noteq> None"
proof (induction as)
  case Nil
  have "take (length sub) (sub @ bs) = sub" by simp
  then show ?case by (cases "sub @ bs") simp_all
next
  case (Cons a as)
  then show ?case by (simp del: not_None_eq)
qed

lemma contains_iff: "contains sub xs \<longleftrightarrow> (\<exists>as bs. xs = as @ sub @ bs)"
proof
  assume "contains sub xs"
  then obtain i where i: "find_sub sub xs = Some i"
    by (auto simp: contains_def)
  from find_sub_Some [OF i] have "take (length sub) (drop i xs) = sub" by simp
  then have "xs = take i xs @ sub @ drop (length sub) (drop i xs)"
    by (metis append_take_drop_id)
  then show "\<exists>as bs. xs = as @ sub @ bs" by blast
next
  assume "\<exists>as bs. xs = as @ sub @ bs"
  then obtain as bs where "xs = as @ sub @ bs" by blast
  then show "contains sub xs"
    by (simp add: contains_def find_sub_occurs del: not_None_eq)
qed

lemma find_end_after_payload:
  "\<not> contains END_BLOCK P \<Longrightarrow> find_sub END_BLOCK (P @ END_BLOCK @ R) = Some (length P)"
proof (induction P)
  case Nil
  show ?case by (simp add: END_BLOCK_def)
next
  case (Cons x P)
  have "\<not> contains END_BLOCK P"
  proof
    assume "contains END_BLOCK P"
    then obtain as bs where "P = as @ END_BLOCK @ bs"
      by (auto simp: contains_iff)
    then have "x # P = (x # as) @ END_BLOCK @ bs" by simp
    with Cons.prems show False unfolding contains_iff by blast
  qed
  from Cons.IH [OF this] have ih: "find_sub END_BLOCK (P @ END_BLOCK @ R) = Some (length P)" .
  have "take (length END_BLOCK) ((x # P) @ END_BLOCK @ R) \<noteq> END_BLOCK"
  proof (cases P)
    case Nil
    then show ?thesis by (simp add: END_BLOCK_def)
  next
    case (Cons y P')
    show ?thesis
    proof
      assume "take (length END_BLOCK) ((x # P) @ END_BLOCK @ R) = END_BLOCK"
      with Cons have "x # P = [] @ END_BLOCK @ P'"
        by (simp add: END_BLOCK_def)
      with Cons.prems show False unfolding contains_iff by blast
    qed
  qed
  with ih show ?case by simp
qed


lemma find_start_after_junk:
  "\<not> contains START_BLOCK J \<Longrightarrow> find_sub START_BLOCK (J @ START_BLOCK @ R) = Some (length J)"
proof (induction J)
  case Nil
  show ?case by (simp add: START_BLOCK_def)
next
  case (Cons x J)
  from Cons.prems have x: "x \<noteq> 0x0B"
    by (auto simp: contains_def START_BLOCK_def)
  from Cons.prems have "\<not> contains START_BLOCK J"
    by (auto simp: contains_def START_BLOCK_def split: if_splits)
  from Cons.IH [OF this] x show ?case
    by (simp add: START_BLOCK_def)
qed

lemma extract_loop_None:
  "index buffer START_BLOCK 0 = None \<Longrightarrow> extract_loop frames buffer = (frames, buffer)"
  by (subst extract_loop.simps) (simp only: option.case)

lemma extract_loop_no_end:
  "index buffer START_BLOCK 0 = Some start \<Longrightarrow> index buffer END_BLOCK (start + 1) = None
     \<Longrightarrow> extract_loop frames buffer = (frames, buffer)"
  by (subst extract_loop.simps) (simp only: option.case)

lemma extract_loop_Some:
  "index buffer START_BLOCK 0 = Some start \<Longrightarrow> index buffer END_BLOCK (start + 1) = Some endp
     \<Longrightarrow> extract_loop frames buffer
       = extract_loop (frames @ [take (endp - (start + 1)) (drop (start + 1) buffer)])
           (drop (endp + length END_BLOCK) buffer)"
  by (subst extract_loop.simps) (simp only: option.case)

lemma extract_loop_frame:
  assumes J: "\<not> contains START_BLOCK J" and P: "\<not> contains END_BLOCK P"
  shows "extract_loop acc (J @ frame_message P @ R) = extract_loop (acc @ [P]) R"
proof -
  let ?buf = "J @ frame_message P @ R"
  have buf: "?buf = J @ START_BLOCK @ (P @ END_BLOCK @ R)"
    by (simp add: frame_message_def)
  have s: "index ?buf START_BLOCK 0 = Some (length J)"
    unfolding buf by (simp add: index_def find_start_after_junk [OF J])
  have d: "drop (length J + 1) ?buf = P @ END_BLOCK @ R"
    by (simp add: frame_message_def START_BLOCK_def)
  have e: "index ?buf END_BLOCK (length J + 1) = Some (length J + 1 + length P)"
    unfolding index_def d
    by (simp add: find_end_after_payload [OF P] frame_message_def START_BLOCK_def)
  have p: "take (length J + 1 + length P - (length J + 1)) (drop (length J + 1) ?buf) = P"
    unfolding d by simp
  have "drop (length END_BLOCK) (drop (length P) (drop (length J + 1) ?buf)) = R"
    unfolding d by simp
  then have r: "drop (length J + 1 + length P + length END_BLOCK) ?buf = R"
    by (simp only: drop_drop ac_simps)
  show ?thesis
    using extract_loop_Some [OF s e, of acc] by (simp only: p r)
qed

lemma extract_loop_acc:
  "extract_loop acc buf = (acc @ fst (extract_loop [] buf), snd (extract_loop [] buf))"
proof (induction buf arbitrary: acc rule: length_induct)
  case (1 buffer)
  show ?case
  proof (cases "index buffer START_BLOCK 0")
    case None
    then show ?thesis by (simp add: extract_loop_None)
  next
    case (Some start)
    note st = this
    show ?thesis
    proof (cases "index buffer END_BLOCK (start + 1)")
      case None
      with st show ?thesis by (simp add: extract_loop_no_end)
    next
      case (Some endp)
      let ?p = "take (endp - (start + 1)) (drop (start + 1) buffer)"
      let ?b = "drop (endp + length END_BLOCK) buffer"
      from index_Some [OF Some] have "endp + 2 \<le> length buffer"
        by (simp add: END_BLOCK_def)
      then have "length ?b < length buffer"
        by (simp add: END_BLOCK_def)
      with "1.IH" have ih: "\<And>acc. extract_loop acc ?b
          = (acc @ fst (extract_loop [] ?b), snd (extract_loop [] ?b))"
        by blast
      have a: "extract_loop acc buffer = extract_loop (acc @ [?p]) ?b"
        by (rule extract_loop_Some [OF st Some])
      have b: "extract_loop [] buffer = extract_loop ([] @ [?p]) ?b"
        by (rule extract_loop_Some [OF st Some])
      show ?thesis
        unfolding a b by (subst ih, subst (2 3) ih) simp
    qed
  qed
qed

lemma extract_frames_frame:
  "\<not> contains START_BLOCK J \<Longrightarrow> \<not> contains END_BLOCK P \<Longrightarrow>
     extract_frames (J @ frame_message P @ R)
       = (P # fst (extract_frames R), snd (extract_frames R))"
  unfolding extract_frames_def
  by (simp add: extract_loop_frame) (subst extract_loop_acc, simp)

lemma extract_frames_empty: "extract_frames [] = ([], [])"
  by (simp add: extract_frames_def extract_loop_None index_def START_BLOCK_def)

lemma extract_frames_prefix:
  assumes P: "\<not> contains END_BLOCK P" and pr: "p @ r = frame_message P" and r: "r \<noteq> []"
  shows "extract_frames p = ([], p)"
proof (cases p)
  case Nil
  then show ?thesis by (simp add: extract_frames_empty)
next
  case (Cons x q)
  with pr have x: "x = 0x0B" and q: "q @ r = P @ END_BLOCK @ []"
    by (simp_all add: frame_message_def START_BLOCK_def)
  have s: "index p START_BLOCK 0 = Some 0"
    by (simp add: index_def Cons x START_BLOCK_def)
  have "find_sub END_BLOCK q = None"
  proof (rule ccontr)
    assume "find_sub END_BLOCK q \<noteq> None"
    then obtain i where i: "find_sub END_BLOCK q = Some i" by auto
    from find_sub_append [OF i, of r] q find_end_after_payload [OF P, of "[]"]
    have "i = length P" by simp
    moreover from find_sub_Some [OF i] have "i + length END_BLOCK \<le> length q" by simp
    moreover from arg_cong [OF q, of length] r
    have "length q < length P + length END_BLOCK" by (cases r) simp_all
    ultimately show False by simp
  qed
  then have e: "index p END_BLOCK (0 + 1) = None"
    by (simp add: index_def Cons)
  show ?thesis
    unfolding extract_frames_def by (rule extract_loop_no_end [OF s e])
qed

lemma extract_loop_suffix: "\<exists>pre. buf = pre @ snd (extract_loop acc buf)"
proof (induction acc buf rule: extract_loop.induct)
  case (1 frames buffer)
  show ?case
  proof (cases "index buffer START_BLOCK 0")
    case None
    then show ?thesis by (simp add: extract_loop_None)
  next
    case (Some start)
    note st = this
    show ?thesis
    proof (cases "index buffer END_BLOCK (start + 1)")
      case None
      with st show ?thesis by (simp add: extract_loop_no_end)
    next
      case (Some endp)
      from "1.IH" [OF st Some] obtain pre where
        "drop (endp + length END_BLOCK) buffer = pre @ snd (extract_loop frames buffer)"
        unfolding extract_loop_Some [OF st Some] by blast
      then have "buffer = (take (endp + length END_BLOCK) buffer @ pre)
          @ snd (extract_loop frames buffer)"
        by (metis append_take_drop_id append.assoc)
      then show ?thesis by blast
    qed
  qed
qed

lemma extract_loop_rest:
  "extract_loop acc' (snd (extract_loop acc buf)) = (acc', snd (extract_loop acc buf))"
proof (induction acc buf rule: extract_loop.induct)
  case (1 frames buffer)
  show ?case
  proof (cases "index buffer START_BLOCK 0")
    case None
    then show ?thesis by (simp add: extract_loop_None)
  next
    case (Some start)
    note st = this
    show ?thesis
    proof (cases "index buffer END_BLOCK (start + 1)")
      case None
      with st show ?thesis by (simp add: extract_loop_no_end)
    next
      case (Some endp)
      from "1.IH" [OF st Some] show ?thesis
        unfolding extract_loop_Some [OF st Some] .
    qed
  qed
qed

subsection \<open>Claims about the frame codec\<close>

text \<open>
  C2. For every payload that contains neither the start marker nor the end marker,
  decoding the encoded payload yields exactly the one-element list holding the payload.
\<close>

theorem frame_roundtrip:
  assumes "\<not> contains START_BLOCK P" and "\<not> contains END_BLOCK P"
  shows "fst (extract_frames (frame_message P)) = [P]"
proof -
  have "\<not> contains START_BLOCK ([] :: byte list)"
    by (simp add: contains_def START_BLOCK_def)
  from extract_frames_frame [OF this assms(2), of "[]"] show ?thesis
    by (simp add: extract_frames_empty)
qed

theorem frame_roundtrip_witness:
  "\<not> contains START_BLOCK [0x55, 0x4E, 0x1C] \<and> \<not> contains END_BLOCK [0x55, 0x4E, 0x1C]
   \<and> fst (extract_frames (frame_message [0x55, 0x4E, 0x1C])) = [[0x55, 0x4E, 0x1C]]"
proof -
  have s: "\<not> contains START_BLOCK [0x55, 0x4E, 0x1C :: byte]"
    by (simp add: contains_def START_BLOCK_def)
  have e: "\<not> contains END_BLOCK [0x55, 0x4E, 0x1C :: byte]"
    by (simp add: contains_def END_BLOCK_def)
  from s e frame_roundtrip [OF s e] show ?thesis by simp
qed

text \<open>
  C3. Decoding extracts the complete frames from left to right, deletes everything up to
  and including each consumed end marker (bytes in front of the start marker too) and
  leaves an incomplete trailing frame in the buffer. For marker-free payloads A and B:
  two frames in a row decode to [A, B] with an empty buffer; a strict prefix of A's frame
  decodes to no frame and an unchanged buffer, and once the rest has arrived the next call
  yields [A]; a frame behind bytes without a start marker is found, and decoding goes on
  behind it. For every buffer, what is left is a suffix of the buffer with no complete
  frame in it.
\<close>

theorem extract_frames_stream:
  assumes "\<not> contains START_BLOCK A \<and> \<not> contains END_BLOCK A"
    and "\<not> contains START_BLOCK B \<and> \<not> contains END_BLOCK B"
  shows "extract_frames (frame_message A @ frame_message B) = ([A, B], [])
    \<and> (\<forall>p r. p @ r = frame_message A \<and> r \<noteq> [] \<longrightarrow>
          extract_frames p = ([], p)
          \<and> extract_frames (snd (extract_frames p) @ r) = ([A], []))
    \<and> (\<forall>J R. \<not> contains START_BLOCK J \<longrightarrow>
          extract_frames (J @ frame_message A @ R)
            = (A # fst (extract_frames R), snd (extract_frames R)))
    \<and> (\<forall>buf. (\<exists>pre. buf = pre @ snd (extract_frames buf))
          \<and> extract_frames (snd (extract_frames buf)) = ([], snd (extract_frames buf)))"
proof -
  have nil: "\<not> contains START_BLOCK ([] :: byte list)"
    by (simp add: contains_def START_BLOCK_def)
  from assms have A: "\<not> contains END_BLOCK A" and B: "\<not> contains END_BLOCK B"
    by simp_all
  have one: "\<And>P. \<not> contains END_BLOCK P \<Longrightarrow> extract_frames (frame_message P) = ([P], [])"
    using extract_frames_frame [OF nil, of _ "[]"] by (simp add: extract_frames_empty)
  have "extract_frames (frame_message A @ frame_message B) = ([A, B], [])"
    using extract_frames_frame [OF nil A, of "frame_message B"] by (simp add: one [OF B])
  moreover have "extract_frames p = ([], p)
      \<and> extract_frames (snd (extract_frames p) @ r) = ([A], [])"
    if "p @ r = frame_message A \<and> r \<noteq> []" for p r
    using that extract_frames_prefix [OF A, of p r] by (simp add: one [OF A])
  moreover have "extract_frames (J @ frame_message A @ R)
      = (A # fst (extract_frames R), snd (extract_frames R))"
    if "\<not> contains START_BLOCK J" for J R
    by (rule extract_frames_frame [OF that A])
  moreover have "(\<exists>pre. buf = pre @ snd (extract_frames buf))
      \<and> extract_frames (snd (extract_frames buf)) = ([], snd (extract_frames buf))" for buf
    unfolding extract_frames_def by (simp add: extract_loop_rest extract_loop_suffix)
  ultimately show ?thesis by blast
qed

theorem extract_frames_stream_witness:
  "\<not> contains START_BLOCK [0x41, 0x1C] \<and> \<not> contains END_BLOCK [0x41, 0x1C]
   \<and> \<not> contains START_BLOCK [0x0D, 0x42] \<and> \<not> contains END_BLOCK [0x0D, 0x42]
   \<and> extract_frames (frame_message [0x41, 0x1C] @ frame_message [0x0D, 0x42])
       = ([[0x41, 0x1C], [0x0D, 0x42]], [])
   \<and> extract_frames [0x0B, 0x41, 0x1C, 0x1C] = ([], [0x0B, 0x41, 0x1C, 0x1C])
   \<and> extract_frames (snd (extract_frames [0x0B, 0x41, 0x1C, 0x1C]) @ [0x0D])
       = ([[0x41, 0x1C]], [])
   \<and> extract_frames ([0x0D, 0x1C, 0x0D] @ frame_message [0x41, 0x1C] @ [0x0B, 0x43])
       = ([[0x41, 0x1C]], [0x0B, 0x43])"
proof -
  have a: "\<not> contains START_BLOCK [0x41, 0x1C :: byte] \<and> \<not> contains END_BLOCK [0x41, 0x1C :: byte]"
    by (simp add: contains_def START_BLOCK_def END_BLOCK_def)
  have b: "\<not> contains START_BLOCK [0x0D, 0x42 :: byte] \<and> \<not> contains END_BLOCK [0x0D, 0x42 :: byte]"
    by (simp add: contains_def START_BLOCK_def END_BLOCK_def)
  note t = extract_frames_stream [OF a b]
  have j: "\<not> contains START_BLOCK [0x0D, 0x1C, 0x0D :: byte]"
    by (simp add: contains_def START_BLOCK_def)
  have pr: "[0x0B, 0x41, 0x1C, 0x1C] @ [0x0D] = frame_message [0x41, 0x1C] \<and> [0x0D :: byte] \<noteq> []"
    by (simp add: frame_message_def START_BLOCK_def END_BLOCK_def)
  have r: "extract_frames [0x0B, 0x43] = ([], [0x0B, 0x43])"
    by (simp add: extract_frames_def extract_loop.simps index_def START_BLOCK_def END_BLOCK_def)
  from t have 1: "extract_frames (frame_message [0x41, 0x1C] @ frame_message [0x0D, 0x42])
       = ([[0x41, 0x1C], [0x0D, 0x42]], [])"
    by blast
  from t pr have 2: "extract_frames [0x0B, 0x41, 0x1C, 0x1C] = ([], [0x0B, 0x41, 0x1C, 0x1C])
      \<and> extract_frames (snd (extract_frames [0x0B, 0x41, 0x1C, 0x1C]) @ [0x0D])
       = ([[0x41, 0x1C]], [])"
    by blast
  from t j have 3: "extract_frames ([0x0D, 0x1C, 0x0D] @ frame_message [0x41, 0x1C] @ [0x0B, 0x43])
       = ([0x41, 0x1C] # fst (extract_frames [0x0B, 0x43]), snd (extract_frames [0x0B, 0x43]))"
    by blast
  from 3 have 4: "extract_frames ([0x0D, 0x1C, 0x0D] @ frame_message [0x41, 0x1C] @ [0x0B, 0x43])
       = ([[0x41, 0x1C]], [0x0B, 0x43])"
    by (simp only: r fst_conv snd_conv)
  from a b 1 2 4 show ?thesis by blast
qed

section \<open>Strings, exceptions and the library\<close>

text \<open>
  A Python \<^verbatim>\<open>str\<close> is a list of code points. \<^verbatim>\<open>py\<close> turns an ASCII literal of the
  source into one.
\<close>

type_synonym str = "nat list"

definition py :: "string \<Rightarrow> str" where
  "py s = map of_char s"

text \<open>
  The exceptions that leave a function of the source. Where the source catches an
  exception, the model has a branch instead.
\<close>

datatype exn =
    FileExistsError str
  | FileNotFoundError str
  | IsADirectoryError str
  | SameFileError str
  | SSLContextError
  | SendError
  | RecvError

text \<open>
  The values a metadata dictionary holds, and the dictionary itself: an association list,
  in insertion order, with literal keys. \<^verbatim>\<open>meta[k] = v\<close> is \<^verbatim>\<open>AList.update k v meta\<close>.
\<close>

datatype jvalue = JNull | JInt int | JStr str

type_synonym meta = "(string \<times> jvalue) list"

text \<open>
  Functions of the Python library that the source calls and that are taken as they are:
  \<^item> \<^verbatim>\<open>decode_utf8\<close>: \<^verbatim>\<open>bytes.decode("utf-8", errors="replace")\<close>, which never raises
    (so the \<^verbatim>\<open>except\<close> branches around it are dead);
  \<^item> \<^verbatim>\<open>parse_int\<close>: \<^verbatim>\<open>int(s)\<close>, \<^verbatim>\<open>None\<close> for a \<^verbatim>\<open>ValueError\<close>;
  \<^item> \<^verbatim>\<open>json_dump\<close>: the bytes \<^verbatim>\<open>json.dump(meta, mf, indent=2)\<close> writes;
  \<^item> \<^verbatim>\<open>lower\<close>: \<^verbatim>\<open>str.lower\<close>;
  \<^item> \<^verbatim>\<open>exn_str\<close>: \<^verbatim>\<open>str(e)\<close> of an exception.
\<close>

record pylib =
  decode_utf8 :: "byte list \<Rightarrow> str"
  parse_int :: "str \<Rightarrow> int option"
  json_dump :: "meta \<Rightarrow> byte list"
  lower :: "str \<Rightarrow> str"
  exn_str :: "exn \<Rightarrow> str"

section \<open>Transport client\<close>

text \<open>
  What one connection does is given from outside, as a script:
  whether \<^verbatim>\<open>socket.create_connection\<close>, \<^verbatim>\<open>ssl.create_default_context\<close>,
  \<^verbatim>\<open>context.wrap_socket\<close> and \<^verbatim>\<open>conn.settimeout\<close> with \<^verbatim>\<open>conn.sendall\<close> succeed or raise,
  the reading of \<^verbatim>\<open>time.time()\<close> before the first \<^verbatim>\<open>recv\<close>, and for each
  \<^verbatim>\<open>conn.recv(4096)\<close> in turn what it does, with the reading of \<^verbatim>\<open>time.time()\<close> after
  it. A \<^verbatim>\<open>recv\<close> returns a chunk (the empty chunk when the peer has closed), raises
  \<^verbatim>\<open>socket.timeout\<close>, or raises another error. When the script has no further entry,
  nothing more arrives and the \<^verbatim>\<open>recv\<close> runs into the socket's timeout. Clock readings
  and the timeout are numbers of one fixed unit.
\<close>

datatype recv_result = Chunk "byte list" | Timeout | Fault

record connection =
  connect_ok :: bool
  context_ok :: bool
  handshake_ok :: bool
  send_ok :: bool
  start_time :: int
  recvs :: "(recv_result \<times> int) list"

text \<open>
  The \<^verbatim>\<open>while True\<close> loop of \<^verbatim>\<open>mllp_send\<close>, on the buffer read so far. The result is
  \<^verbatim>\<open>Inr (Some ack)\<close>, \<^verbatim>\<open>Inr None\<close> for the source's \<^verbatim>\<open>return None\<close>, or \<^verbatim>\<open>Inl\<close> an
  exception that the \<^verbatim>\<open>try ... finally\<close> lets through.
\<close>

fun recv_loop :: "byte list \<Rightarrow> int \<Rightarrow> int \<Rightarrow> (recv_result \<times> int) list
    \<Rightarrow> exn + byte list option" where
  "recv_loop buf start timeout [] = Inr None"
| "recv_loop buf start timeout ((Timeout, now) # rest) = Inr None"
| "recv_loop buf start timeout ((Fault, now) # rest) = Inl RecvError"
| "recv_loop buf start timeout ((Chunk chunk, now) # rest) =
     (if chunk = [] then Inr None
      else
        (case extract_frames (buf @ chunk) of
           (frames, buf') \<Rightarrow>
             if frames \<noteq> [] then Inr (Some (hd frames))
             else if now - start > timeout then Inr None
             else recv_loop buf' start timeout rest))"

text \<open>
  \<^verbatim>\<open>mllp_send(host, port, payload, timeout, tls, cafile)\<close>. Host, port and CA file only
  select the connection, which the model is given as \<^verbatim>\<open>c\<close>. The context is created
  outside every \<^verbatim>\<open>try\<close>; \<^verbatim>\<open>settimeout\<close> and \<^verbatim>\<open>sendall\<close> stand inside the
  \<^verbatim>\<open>try ... finally\<close>, which has no \<^verbatim>\<open>except\<close>.
\<close>

definition mllp_send :: "connection \<Rightarrow> byte list \<Rightarrow> int \<Rightarrow> bool \<Rightarrow> exn + byte list option" where
  "mllp_send c payload timeout tls =
     (if \<not> connect_ok c then Inr None
      else if tls \<and> \<not> context_ok c then Inl SSLContextError
      else if tls \<and> \<not> handshake_ok c then Inr None
      else if \<not> send_ok c then Inl SendError
      else recv_loop [] (start_time c) timeout (recvs c))"

section \<open>Delivery orchestrator\<close>

text \<open>
  The effects of the program are threaded through a state: the four directories the
  worker touches, the number of connections opened so far and the seconds spent in
  \<^verbatim>\<open>time.sleep\<close>. The directories are taken to hold regular files only (the program creates
  no subdirectory in them), as association lists from file name to content:
  \<^verbatim>\<open>map_of\<close> reads a file, \<^verbatim>\<open>AList.update\<close> writes one, \<^verbatim>\<open>AList.delete\<close> removes one.
  The surroundings are an oracle: the script of the n-th connection and the text of
  \<^verbatim>\<open>datetime.utcnow().isoformat()\<close> after it.
\<close>

type_synonym directory = "(str \<times> byte list) list"

record world =
  ready :: directory
  sent :: directory
  failed :: directory
  archive :: directory
  conns :: nat
  slept :: nat

record environ =
  network :: "nat \<Rightarrow> connection"
  utcnow :: "nat \<Rightarrow> str"

text \<open>
  \<^verbatim>\<open>send_one_file\<close>. \<^verbatim>\<open>contents\<close> is what opening and reading \<^verbatim>\<open>filepath\<close> gives, the
  bytes or the exception; the function writes no file, so it is the same at every attempt.
  \<^verbatim>\<open>send_loop\<close> is the \<^verbatim>\<open>for attempt in range(1, max_attempts + 1)\<close> loop from \<^verbatim>\<open>attempt\<close>
  on. An exception of \<^verbatim>\<open>mllp_send\<close> is not caught here.
\<close>

function send_loop :: "pylib \<Rightarrow> environ \<Rightarrow> exn + byte list \<Rightarrow> int \<Rightarrow> bool \<Rightarrow> int \<Rightarrow> int
    \<Rightarrow> meta \<Rightarrow> world \<Rightarrow> (exn + bool \<times> meta) \<times> world" where
  "send_loop L E contents timeout tls max_attempts attempt meta w =
     (if max_attempts < attempt then (Inr (False, meta), w)
      else
        let meta = AList.update ''attempts'' (JInt attempt) meta in
        (case contents of
           Inl e \<Rightarrow>
             (Inr (False,
                AList.update ''error'' (JStr (py ''read_error:'' @ exn_str L e)) meta), w)
         | Inr payload \<Rightarrow>
             let resp = mllp_send (network E (conns w)) payload timeout tls;
                 w = w\<lparr>conns := conns w + 1\<rparr>
             in
             (case resp of
                Inl e \<Rightarrow> (Inl e, w)
              | Inr r \<Rightarrow>
                  let meta = AList.update ''sent_at'' (JStr (utcnow E (conns w))) meta in
                  (case r of
                     None \<Rightarrow>
                       send_loop L E contents timeout tls max_attempts (attempt + 1)
                         (AList.update ''error'' (JStr (py ''no_ack_or_timeout'')) meta)
                         (w\<lparr>slept := slept w + 1\<rparr>)
                   | Some ack \<Rightarrow>
                       (Inr (True,
                          AList.update ''ack'' (JStr (decode_utf8 L ack)) meta), w)))))"
  by pat_completeness auto
termination
  by (relation "measure (\<lambda>(L, E, contents, timeout, tls, max_attempts, attempt, meta, w).
        nat (max_attempts + 1 - attempt))") auto

definition send_one_file :: "pylib \<Rightarrow> environ \<Rightarrow> exn + byte list \<Rightarrow> int \<Rightarrow> bool \<Rightarrow> int
    \<Rightarrow> world \<Rightarrow> (exn + bool \<times> meta) \<times> world" where
  "send_one_file L E contents timeout tls max_attempts w =
     send_loop L E contents timeout tls max_attempts 1
       [(''attempts'', JInt 0), (''sent_at'', JNull), (''ack'', JNull), (''error'', JNull)] w"

subsection \<open>The attempt loop\<close>

declare send_loop.simps [simp del]

lemma send_loop_done:
  "max_attempts < attempt \<Longrightarrow>
     send_loop L E contents timeout tls max_attempts attempt meta w = (Inr (False, meta), w)"
  by (subst send_loop.simps) simp

lemma send_loop_no_ack:
  "attempt \<le> max_attempts \<Longrightarrow>
   mllp_send (network E (conns w)) payload timeout tls = Inr None \<Longrightarrow>
     send_loop L E (Inr payload) timeout tls max_attempts attempt meta w
       = send_loop L E (Inr payload) timeout tls max_attempts (attempt + 1)
           (AList.update ''error'' (JStr (py ''no_ack_or_timeout''))
             (AList.update ''sent_at'' (JStr (utcnow E (conns w + 1)))
               (AList.update ''attempts'' (JInt attempt) meta)))
           (w\<lparr>conns := conns w + 1, slept := slept w + 1\<rparr>)"
  by (subst send_loop.simps) (simp add: Let_def)

lemma send_loop_ack:
  "attempt \<le> max_attempts \<Longrightarrow>
   mllp_send (network E (conns w)) payload timeout tls = Inr (Some ack) \<Longrightarrow>
     send_loop L E (Inr payload) timeout tls max_attempts attempt meta w
       = (Inr (True,
            AList.update ''ack'' (JStr (decode_utf8 L ack))
              (AList.update ''sent_at'' (JStr (utcnow E (conns w + 1)))
                (AList.update ''attempts'' (JInt attempt) meta))),
          w\<lparr>conns := conns w + 1\<rparr>)"
  by (subst send_loop.simps) (simp add: Let_def)

lemma send_loop_failures:
  "(\<And>i. i < k \<Longrightarrow> mllp_send (network E (conns w + i)) payload timeout tls = Inr None) \<Longrightarrow>
   attempt + int k \<le> max_attempts + 1 \<Longrightarrow>
   \<exists>meta'.
     send_loop L E (Inr payload) timeout tls max_attempts attempt meta w
       = send_loop L E (Inr payload) timeout tls max_attempts (attempt + int k) meta'
           (w\<lparr>conns := conns w + k, slept := slept w + k\<rparr>)
     \<and> map_of meta' ''ack'' = map_of meta ''ack''
     \<and> (if k = 0 then meta' = meta
        else map_of meta' ''error'' = Some (JStr (py ''no_ack_or_timeout''))
          \<and> map_of meta' ''attempts'' = Some (JInt (attempt + int k - 1)))"
proof (induction k arbitrary: attempt meta w)
  case 0
  then show ?case by simp
next
  case (Suc k)
  let ?m = "AList.update ''error'' (JStr (py ''no_ack_or_timeout''))
             (AList.update ''sent_at'' (JStr (utcnow E (conns w + 1)))
               (AList.update ''attempts'' (JInt attempt) meta))"
  let ?w = "w\<lparr>conns := conns w + 1, slept := slept w + 1\<rparr>"
  from Suc.prems(2) have le: "attempt \<le> max_attempts" by simp
  from Suc.prems(1) [of 0] have r0: "mllp_send (network E (conns w)) payload timeout tls = Inr None"
    by simp
  have step: "send_loop L E (Inr payload) timeout tls max_attempts attempt meta w
       = send_loop L E (Inr payload) timeout tls max_attempts (attempt + 1) ?m ?w"
    by (rule send_loop_no_ack [OF le r0])
  have "\<And>i. i < k \<Longrightarrow> mllp_send (network E (conns ?w + i)) payload timeout tls = Inr None"
    using Suc.prems(1) [of "Suc _"] by simp
  moreover from Suc.prems(2) have "attempt + 1 + int k \<le> max_attempts + 1" by simp
  ultimately obtain meta' where m:
    "send_loop L E (Inr payload) timeout tls max_attempts (attempt + 1) ?m ?w
       = send_loop L E (Inr payload) timeout tls max_attempts (attempt + 1 + int k) meta'
           (?w\<lparr>conns := conns ?w + k, slept := slept ?w + k\<rparr>)"
    "map_of meta' ''ack'' = map_of ?m ''ack''"
    "if k = 0 then meta' = ?m
        else map_of meta' ''error'' = Some (JStr (py ''no_ack_or_timeout''))
          \<and> map_of meta' ''attempts'' = Some (JInt (attempt + 1 + int k - 1))"
    using Suc.IH [of ?w "attempt + 1" ?m] by blast
  have "send_loop L E (Inr payload) timeout tls max_attempts attempt meta w
       = send_loop L E (Inr payload) timeout tls max_attempts (attempt + int (Suc k)) meta'
           (w\<lparr>conns := conns w + Suc k, slept := slept w + Suc k\<rparr>)"
    unfolding step m(1) by (simp add: ac_simps)
  moreover have "map_of meta' ''ack'' = map_of meta ''ack''"
    unfolding m(2) by (simp add: update_conv')
  moreover have "map_of meta' ''error'' = Some (JStr (py ''no_ack_or_timeout''))
          \<and> map_of meta' ''attempts'' = Some (JInt (attempt + int (Suc k) - 1))"
    using m(3) by (cases "k = 0") (simp_all add: update_conv' ac_simps)
  ultimately show ?case by auto
qed


lemma send_one_file_all_fail:
  assumes "1 \<le> N"
    and "\<And>i. i < nat N \<Longrightarrow> mllp_send (network E (conns w + i)) payload timeout tls = Inr None"
  shows "\<exists>m. send_one_file L E (Inr payload) timeout tls N w
            = (Inr (False, m), w\<lparr>conns := conns w + nat N, slept := slept w + nat N\<rparr>)
          \<and> map_of m ''attempts'' = Some (JInt N)
          \<and> map_of m ''error'' = Some (JStr (py ''no_ack_or_timeout''))
          \<and> map_of m ''ack'' = Some JNull"
proof -
  let ?m0 = "[(''attempts'', JInt 0), (''sent_at'', JNull), (''ack'', JNull), (''error'', JNull)]"
  from assms(1) have b: "1 + int (nat N) \<le> N + 1" by simp
  from send_loop_failures [of "nat N" E w payload timeout tls 1 N L ?m0, OF assms(2) b]
  obtain m where m:
    "send_loop L E (Inr payload) timeout tls N 1 ?m0 w
       = send_loop L E (Inr payload) timeout tls N (1 + int (nat N)) m
           (w\<lparr>conns := conns w + nat N, slept := slept w + nat N\<rparr>)"
    "map_of m ''ack'' = map_of ?m0 ''ack''"
    "map_of m ''error'' = Some (JStr (py ''no_ack_or_timeout''))
          \<and> map_of m ''attempts'' = Some (JInt (1 + int (nat N) - 1))"
    using assms(1) by (auto split: if_splits)
  have "N < 1 + int (nat N)" using assms(1) by simp
  from send_loop_done [OF this] m assms(1) show ?thesis
    unfolding send_one_file_def by simp
qed

lemma send_one_file_ack_at:
  assumes "1 \<le> K" and "K \<le> N"
    and "\<And>i. i < nat K - 1 \<Longrightarrow> mllp_send (network E (conns w + i)) payload timeout tls = Inr None"
    and "mllp_send (network E (conns w + (nat K - 1))) payload timeout tls = Inr (Some ack)"
  shows "\<exists>m. send_one_file L E (Inr payload) timeout tls N w
            = (Inr (True, m), w\<lparr>conns := conns w + nat K, slept := slept w + (nat K - 1)\<rparr>)
          \<and> map_of m ''attempts'' = Some (JInt K)
          \<and> map_of m ''ack'' = Some (JStr (decode_utf8 L ack))
          \<and> map_of m ''error'' = Some (if K = 1 then JNull else JStr (py ''no_ack_or_timeout''))"
proof -
  let ?m0 = "[(''attempts'', JInt 0), (''sent_at'', JNull), (''ack'', JNull), (''error'', JNull)]"
  let ?k = "nat K - 1"
  let ?w = "w\<lparr>conns := conns w + ?k, slept := slept w + ?k\<rparr>"
  from assms(1,2) have b: "1 + int ?k \<le> N + 1" by simp
  from send_loop_failures [of ?k E w payload timeout tls 1 N L ?m0, OF assms(3) b]
  obtain m where m:
    "send_loop L E (Inr payload) timeout tls N 1 ?m0 w
       = send_loop L E (Inr payload) timeout tls N (1 + int ?k) m ?w"
    "map_of m ''ack'' = map_of ?m0 ''ack''"
    "if ?k = 0 then m = ?m0
        else map_of m ''error'' = Some (JStr (py ''no_ack_or_timeout''))
          \<and> map_of m ''attempts'' = Some (JInt (1 + int ?k - 1))"
    by blast
  from assms(1) have K: "1 + int ?k = K" by simp
  from assms(4) have a: "mllp_send (network E (conns ?w)) payload timeout tls = Inr (Some ack)"
    by simp
  note s = send_loop_ack [OF assms(2) a, of L m]
  have e: "map_of m ''error'' = Some (if K = 1 then JNull else JStr (py ''no_ack_or_timeout''))"
  proof (cases "?k = 0")
    case True
    with m(3) assms(1) show ?thesis by simp
  next
    case False
    with m(3) assms(1) show ?thesis by auto
  qed
  have c: "conns w + ?k + 1 = conns w + nat K" using assms(1) by simp
  show ?thesis
    unfolding send_one_file_def m(1) K s
    using e c by (simp add: update_conv')
qed

subsection \<open>Claims about the transport client\<close>


text \<open>Sample connections: one that is refused, one whose peer answers with one frame.\<close>

definition refused :: connection where
  "refused = \<lparr>connect_ok = False, context_ok = True, handshake_ok = True, send_ok = True,
     start_time = 0, recvs = []\<rparr>"

definition answering :: "byte list \<Rightarrow> connection" where
  "answering ack = \<lparr>connect_ok = True, context_ok = True, handshake_ok = True, send_ok = True,
     start_time = 0, recvs = [(Chunk (frame_message ack), 1)]\<rparr>"

lemma mllp_send_refused: "mllp_send refused payload timeout tls = Inr None"
  by (simp add: mllp_send_def refused_def)

lemma mllp_send_answering:
  "\<not> contains END_BLOCK ack \<Longrightarrow> mllp_send (answering ack) payload timeout tls = Inr (Some ack)"
proof -
  assume a: "\<not> contains END_BLOCK ack"
  have nil: "\<not> contains START_BLOCK ([] :: byte list)"
    by (simp add: contains_def START_BLOCK_def)
  have "extract_frames (frame_message ack) = ([ack], [])"
    using extract_frames_frame [OF nil a, of "[]"] by (simp add: extract_frames_empty)
  then show ?thesis
    by (simp add: mllp_send_def answering_def frame_message_def START_BLOCK_def)
qed



section \<open>Validation\<close>

text \<open>
  String operations of Python on code point lists: \<^verbatim>\<open>s.startswith(pre)\<close>,
  \<^verbatim>\<open>s.splitlines()\<close> with its line boundaries (\<^verbatim>\<open>\n\<close>, \<^verbatim>\<open>\r\<close>, \<^verbatim>\<open>\r\n\<close>, \<^verbatim>\<open>\v\<close>, \<^verbatim>\<open>\f\<close>,
  \<^verbatim>\<open>\x1c\<close>, \<^verbatim>\<open>\x1d\<close>, \<^verbatim>\<open>\x1e\<close>, \<^verbatim>\<open>\x85\<close>, U+2028, U+2029), \<^verbatim>\<open>s.split(sep)\<close> for a
  separator of one character, the index of the first element of a list that satisfies
  a predicate (\<^verbatim>\<open>next(i for i, x in enumerate(xs) if P(x))\<close>, \<^verbatim>\<open>None\<close> for
  \<^verbatim>\<open>StopIteration\<close>), and the decimal text of an integer (\<^verbatim>\<open>f"{n}"\<close>).
\<close>

definition startswith :: "'a list \<Rightarrow> 'a list \<Rightarrow> bool" where
  "startswith s pre = (take (length pre) s = pre)"

definition linebreak :: "nat \<Rightarrow> bool" where
  "linebreak c = (c \<in> {10, 11, 12, 13, 28, 29, 30, 133, 8232, 8233})"

fun splitlines_from :: "str \<Rightarrow> str \<Rightarrow> str list" where
  "splitlines_from cur [] = (if cur = [] then [] else [cur])"
| "splitlines_from cur [c] = (if linebreak c then [cur] else [cur @ [c]])"
| "splitlines_from cur (c # d # cs) =
     (if c = 13 \<and> d = 10 then cur # splitlines_from [] cs
      else if linebreak c then cur # splitlines_from [] (d # cs)
      else splitlines_from (cur @ [c]) (d # cs))"

definition splitlines :: "str \<Rightarrow> str list" where
  "splitlines s = splitlines_from [] s"

fun split_on :: "'a \<Rightarrow> 'a list \<Rightarrow> 'a list list" where
  "split_on sep [] = [[]]"
| "split_on sep (c # cs) =
     (if c = sep then [] # split_on sep cs
      else (case split_on sep cs of
              [] \<Rightarrow> [[c]]
            | p # ps \<Rightarrow> (c # p) # ps))"

fun first_index :: "('a \<Rightarrow> bool) \<Rightarrow> 'a list \<Rightarrow> nat option" where
  "first_index P [] = None"
| "first_index P (x # xs) = (if P x then Some 0 else map_option Suc (first_index P xs))"

fun digits :: "nat \<Rightarrow> str" where
  "digits n = (if n < 10 then [48 + n] else digits (n div 10) @ [48 + n mod 10])"

declare digits.simps [simp del]

definition str_int :: "int \<Rightarrow> str" where
  "str_int i = (if i < 0 then 45 # digits (nat (- i)) else digits (nat i))"

text \<open>
  The two generator searches of \<^verbatim>\<open>basic_validate_edifact_bytes\<close>: the index of the first
  line that starts with \<^verbatim>\<open>UNH+\<close> and of the first line from there on that starts with
  \<^verbatim>\<open>UNT+\<close>; \<^verbatim>\<open>None\<close> when either \<^verbatim>\<open>next\<close> raises \<^verbatim>\<open>StopIteration\<close>.
\<close>

definition unh_unt :: "str list \<Rightarrow> (nat \<times> nat) option" where
  "unh_unt parts =
     (case first_index (\<lambda>ln. startswith ln (py ''UNH+'')) parts of
        None \<Rightarrow> None
      | Some unh_idx \<Rightarrow>
          (case first_index (\<lambda>ln. startswith ln (py ''UNT+'')) (drop unh_idx parts) of
             None \<Rightarrow> None
           | Some k \<Rightarrow> Some (unh_idx, unh_idx + k)))"

text \<open>
  \<^verbatim>\<open>int(unt_line.split("+")[1])\<close>; \<^verbatim>\<open>None\<close> when the index or the conversion raises, which
  the inner \<^verbatim>\<open>except Exception: pass\<close> swallows.
\<close>

definition reported_count :: "pylib \<Rightarrow> str \<Rightarrow> int option" where
  "reported_count L unt_line =
     (let unt_body = split_on 43 unt_line in
      if 1 < length unt_body then parse_int L (unt_body ! 1) else None)"

definition basic_validate_edifact_bytes :: "pylib \<Rightarrow> byte list \<Rightarrow> bool \<times> str" where
  "basic_validate_edifact_bytes L data =
     (let txt = decode_utf8 L data in
      if \<not> (startswith txt (py ''UNA'') \<or> startswith txt (py ''UNB''))
      then (False, py ''missing_UNA_or_UNB'')
      else if \<not> contains (py ''UNH+'') txt then (False, py ''missing_UNH'')
      else if \<not> contains (py ''UNT+'') txt then (False, py ''missing_UNT'')
      else
        let parts = splitlines txt in
        (case unh_unt parts of
           None \<Rightarrow> (True, py ''ok'')
         | Some (unh_idx, unt_idx) \<Rightarrow>
             let seg_count = int unt_idx - int unh_idx + 1;
                 unt_line = parts ! unt_idx
             in
             (case reported_count L unt_line of
                None \<Rightarrow> (True, py ''ok'')
              | Some reported \<Rightarrow>
                  if \<bar>reported - seg_count\<bar> > 2
                  then (True, py ''segment_count_mismatch_reported='' @ str_int reported
                          @ py ''_actual='' @ str_int seg_count)
                  else (True, py ''ok''))))"


subsection \<open>Claims about validation\<close>

text \<open>
  A stand-in for the library at the concrete inputs of the examples below, where all text
  is plain ASCII and it agrees with Python: bytes decode to their own code points, a
  string of ASCII digits with an optional minus sign converts to its value, a dictionary
  of numbers, nulls and strings free of characters to escape prints as JSON with an
  indent of two.
\<close>

fun dec_value :: "nat \<Rightarrow> str \<Rightarrow> nat option" where
  "dec_value acc [] = Some acc"
| "dec_value acc (c # cs) =
     (if 48 \<le> c \<and> c \<le> 57 then dec_value (10 * acc + (c - 48)) cs else None)"

definition sample_int :: "str \<Rightarrow> int option" where
  "sample_int s =
     (case s of
        [] \<Rightarrow> None
      | c # cs \<Rightarrow>
          if c = 45 then (if cs = [] then None else map_option (\<lambda>n. - int n) (dec_value 0 cs))
          else map_option int (dec_value 0 s))"

definition json_value :: "jvalue \<Rightarrow> str" where
  "json_value v = (case v of JNull \<Rightarrow> py ''null'' | JInt i \<Rightarrow> str_int i | JStr s \<Rightarrow> 34 # s @ [34])"

fun json_items :: "meta \<Rightarrow> str" where
  "json_items [] = []"
| "json_items [(k, v)] = py ''  '' @ 34 # py k @ 34 # py '': '' @ json_value v"
| "json_items ((k, v) # kv # rest) =
     py ''  '' @ 34 # py k @ 34 # py '': '' @ json_value v @ 44 # 10 # json_items (kv # rest)"

definition sample_json :: "meta \<Rightarrow> byte list" where
  "sample_json m =
     map of_nat (if m = [] then py ''{}'' else py ''{'' @ 10 # json_items m @ 10 # py ''}'')"

definition sample_lib :: pylib where
  "sample_lib = \<lparr>
     decode_utf8 = map unat,
     parse_int = sample_int,
     json_dump = sample_json,
     lower = map (\<lambda>c. if 65 \<le> c \<and> c \<le> 90 then c + 32 else c),
     exn_str = (\<lambda>e. case e of
        FileNotFoundError p \<Rightarrow> py ''[Errno 2] No such file or directory: '' @ 39 # p @ [39]
      | _ \<Rightarrow> [])\<rparr>"

definition ascii :: "string \<Rightarrow> byte list" where
  "ascii s = map of_char s"


definition order_ok :: "byte list" where
  "order_ok = ascii ''UNB+x'' @ 10 # ascii ''UNH+1'' @ 10 # ascii ''BGM'' @ 10 # ascii ''UNT+3+1'' @ [10]"

definition order_miscounted :: "byte list" where
  "order_miscounted = ascii ''UNB+x'' @ 10 # ascii ''UNH+1'' @ 10 # ascii ''BGM'' @ 10 # ascii ''UNT+9+1'' @ [10]"

text \<open>The equations that evaluate the string functions on a concrete input.\<close>

lemmas eval_defs = py_def ascii_def sample_lib_def startswith_def contains_def splitlines_def
  linebreak_def unh_unt_def reported_count_def sample_int_def str_int_def digits.simps


section \<open>Pipeline state store\<close>

text \<open>
  \<^verbatim>\<open>META_EXT\<close>, and the file operations on directories. A path inside a pipeline directory
  is the file name. \<^verbatim>\<open>shutil.move\<close> renames: a file of the same name at the destination
  is replaced. Reading, moving or copying a file that is not there raises.
\<close>

definition META_EXT :: str where
  "META_EXT = py ''.meta.json''"

definition read_file :: "directory \<Rightarrow> str \<Rightarrow> exn + byte list" where
  "read_file d name =
     (case map_of d name of None \<Rightarrow> Inl (FileNotFoundError name) | Some data \<Rightarrow> Inr data)"

definition shutil_move :: "str \<Rightarrow> directory \<Rightarrow> directory \<Rightarrow> exn + directory \<times> directory" where
  "shutil_move name src dst =
     (case map_of src name of
        None \<Rightarrow> Inl (FileNotFoundError name)
      | Some data \<Rightarrow> Inr (AList.delete name src, AList.update name data dst))"

definition shutil_copy2 :: "str \<Rightarrow> directory \<Rightarrow> directory \<Rightarrow> exn + directory" where
  "shutil_copy2 name src dst =
     (case map_of src name of
        None \<Rightarrow> Inl (FileNotFoundError name)
      | Some data \<Rightarrow> Inr (AList.update name data dst))"

text \<open>\<^verbatim>\<open>validate_file(path)\<close> and \<^verbatim>\<open>write_meta_for_send(path, meta)\<close>, for a path in \<^verbatim>\<open>d\<close>.\<close>

definition validate_file :: "pylib \<Rightarrow> directory \<Rightarrow> str \<Rightarrow> exn + bool \<times> str" where
  "validate_file L d path =
     (case read_file d path of
        Inl e \<Rightarrow> Inl e
      | Inr data \<Rightarrow> Inr (basic_validate_edifact_bytes L data))"

definition write_meta_for_send :: "pylib \<Rightarrow> str \<Rightarrow> meta \<Rightarrow> directory \<Rightarrow> directory" where
  "write_meta_for_send L path meta d = AList.update (path @ META_EXT) (json_dump L meta) d"

text \<open>\<^verbatim>\<open>meta.update(send_meta)\<close>.\<close>

definition dict_update :: "meta \<Rightarrow> meta \<Rightarrow> meta" where
  "dict_update m other = foldl (\<lambda>acc (k, v). AList.update k v acc) m other"

text \<open>
  \<^verbatim>\<open>move_to_ready(path, force)\<close>. \<^verbatim>\<open>src\<close> is what \<^verbatim>\<open>shutil.copy2\<close> gets from \<^verbatim>\<open>path\<close>: the
  bytes of the source file, or the exception it raises (no such file, a directory, the
  destination itself). The path is one that names a file, not one that ends in a slash.
  The paths returned are those inside the Ready directory.
\<close>

definition basename :: "str \<Rightarrow> str" where
  "basename path = rev (takeWhile (\<lambda>c. c \<noteq> 47) (rev path))"

definition move_to_ready :: "pylib \<Rightarrow> environ \<Rightarrow> str \<Rightarrow> exn + byte list \<Rightarrow> bool \<Rightarrow> world
    \<Rightarrow> (exn + str \<times> str) \<times> world" where
  "move_to_ready L E path src force w =
     (let base = basename path; dest = base in
      if map_of (ready w) dest \<noteq> None \<and> \<not> force then (Inl (FileExistsError dest), w)
      else
        (case src of
           Inl e \<Rightarrow> (Inl e, w)
         | Inr data \<Rightarrow>
             let w = w\<lparr>ready := AList.update dest data (ready w)\<rparr>;
                 meta = [(''moved_at'', JStr (utcnow E (conns w))), (''src'', JStr path)];
                 meta_path = dest @ META_EXT;
                 w = w\<lparr>ready := AList.update meta_path (json_dump L meta) (ready w)\<rparr>
             in (Inr (dest, meta_path), w)))"

text \<open>
  The body of the \<^verbatim>\<open>for fname in files\<close> loop of \<^verbatim>\<open>process_ready_queue\<close>. The result is
  the exception that leaves the body, if any, and the state. Moving or copying the
  sidecar stands in a \<^verbatim>\<open>try\<close> whose \<^verbatim>\<open>except Exception: pass\<close> drops the exception.
\<close>

definition relocate :: "str \<Rightarrow> directory \<times> directory \<Rightarrow> directory \<times> directory" where
  "relocate name dirs =
     (case shutil_move name (fst dirs) (snd dirs) of Inl e \<Rightarrow> dirs | Inr dirs' \<Rightarrow> dirs')"

definition archive_copy :: "str \<Rightarrow> world \<Rightarrow> world" where
  "archive_copy fname w =
     (case shutil_copy2 fname (sent w) (archive w) of
        Inl e \<Rightarrow> w
      | Inr a \<Rightarrow>
          let w = w\<lparr>archive := a\<rparr> in
          if map_of (sent w) (fname @ META_EXT) \<noteq> None then
            (case shutil_copy2 (fname @ META_EXT) (sent w) (archive w) of
               Inl e \<Rightarrow> w
             | Inr a \<Rightarrow> w\<lparr>archive := a\<rparr>)
          else w)"

definition process_file :: "pylib \<Rightarrow> environ \<Rightarrow> int \<Rightarrow> bool \<Rightarrow> int \<Rightarrow> bool \<Rightarrow> str \<Rightarrow> world
    \<Rightarrow> exn option \<times> world" where
  "process_file L E timeout tls max_attempts archive_on_sent fname w =
     (if map_of (ready w) fname = None then (None, w)
      else
        let meta = [(''file'', JStr fname), (''attempts'', JInt 0), (''sent_at'', JNull),
                    (''ack'', JNull), (''error'', JNull)]
        in
        (case validate_file L (ready w) fname of
           Inl e \<Rightarrow> (Some e, w)
         | Inr (ok, prev) \<Rightarrow>
             if \<not> ok then
               let meta = AList.update ''error'' (JStr (py ''validation_failed:'' @ prev)) meta;
                   w = w\<lparr>ready := write_meta_for_send L fname meta (ready w)\<rparr>
               in
               (case shutil_move fname (ready w) (failed w) of
                  Inl e \<Rightarrow> (Some e, w)
                | Inr (r, f) \<Rightarrow>
                    let w = w\<lparr>ready := r, failed := f\<rparr> in
                    if map_of (ready w) (fname @ META_EXT) \<noteq> None then
                      (case relocate (fname @ META_EXT) (ready w, failed w) of
                         (r, f) \<Rightarrow> (None, w\<lparr>ready := r, failed := f\<rparr>))
                    else (None, w))
             else
               (case send_one_file L E (read_file (ready w) fname) timeout tls max_attempts w of
                  (Inl e, w) \<Rightarrow> (Some e, w)
                | (Inr (success, send_meta), w) \<Rightarrow>
                    let meta = dict_update meta send_meta;
                        w = w\<lparr>ready := write_meta_for_send L fname meta (ready w)\<rparr>
                    in
                    if success then
                      (case shutil_move fname (ready w) (sent w) of
                         Inl e \<Rightarrow> (Some e, w)
                       | Inr (r, s) \<Rightarrow>
                           let w = w\<lparr>ready := r, sent := s\<rparr> in
                           (case relocate (fname @ META_EXT) (ready w, sent w) of
                              (r, s) \<Rightarrow>
                                let w = w\<lparr>ready := r, sent := s\<rparr> in
                                (None, if archive_on_sent then archive_copy fname w else w)))
                    else
                      (case shutil_move fname (ready w) (failed w) of
                         Inl e \<Rightarrow> (Some e, w)
                       | Inr (r, f) \<Rightarrow>
                           let w = w\<lparr>ready := r, failed := f\<rparr> in
                           (case relocate (fname @ META_EXT) (ready w, failed w) of
                              (r, f) \<Rightarrow> (None, w\<lparr>ready := r, failed := f\<rparr>))))))"

text \<open>
  \<^verbatim>\<open>process_ready_queue\<close>. \<^verbatim>\<open>os.listdir\<close> gives each name once; the list comprehension
  filters with \<^verbatim>\<open>f.lower().endswith(".edi") or True\<close>; \<^verbatim>\<open>sorted\<close> orders strings by code
  points. The loop runs over that list, taken once, and stops at the first exception.
\<close>

definition listdir :: "directory \<Rightarrow> str list" where
  "listdir d = remdups (map fst d)"

definition endswith :: "'a list \<Rightarrow> 'a list \<Rightarrow> bool" where
  "endswith s suf = (length suf \<le> length s \<and> drop (length s - length suf) s = suf)"

definition ready_files :: "pylib \<Rightarrow> world \<Rightarrow> str list" where
  "ready_files L w =
     sort (filter (\<lambda>f. endswith (lower L f) (py ''.edi'') \<or> True) (listdir (ready w)))"

fun queue_loop :: "pylib \<Rightarrow> environ \<Rightarrow> int \<Rightarrow> bool \<Rightarrow> int \<Rightarrow> bool \<Rightarrow> str list \<Rightarrow> world
    \<Rightarrow> exn option \<times> world" where
  "queue_loop L E timeout tls max_attempts archive_on_sent [] w = (None, w)"
| "queue_loop L E timeout tls max_attempts archive_on_sent (fname # files) w =
     (case process_file L E timeout tls max_attempts archive_on_sent fname w of
        (Some e, w') \<Rightarrow> (Some e, w')
      | (None, w') \<Rightarrow> queue_loop L E timeout tls max_attempts archive_on_sent files w')"

definition process_ready_queue :: "pylib \<Rightarrow> environ \<Rightarrow> int \<Rightarrow> bool \<Rightarrow> int \<Rightarrow> bool \<Rightarrow> world
    \<Rightarrow> exn option \<times> world" where
  "process_ready_queue L E timeout tls max_attempts archive_on_sent w =
     queue_loop L E timeout tls max_attempts archive_on_sent (ready_files L w) w"

subsection \<open>The loop body and the loop\<close>

lemma META_EXT_nonempty: "name @ META_EXT \<noteq> name"
  by (simp add: META_EXT_def py_def)

lemma send_loop_dirs:
  "send_loop L E contents timeout tls max_attempts attempt meta w = (r, w') \<Longrightarrow>
     ready w' = ready w \<and> sent w' = sent w \<and> failed w' = failed w \<and> archive w' = archive w"
proof (induction L E contents timeout tls max_attempts attempt meta w rule: send_loop.induct)
  case (1 L E contents timeout tls max_attempts attempt meta w)
  show ?case
  proof (cases "max_attempts < attempt")
    case True
    with "1.prems" show ?thesis by (simp add: send_loop_done)
  next
    case False
    note le = this
    show ?thesis
    proof (cases contents)
      case (Inl e)
      with "1.prems" le show ?thesis
        by (subst (asm) send_loop.simps) (auto simp: Let_def)
    next
      case (Inr payload)
      note c = this
      show ?thesis
      proof (cases "mllp_send (network E (conns w)) payload timeout tls")
        case (Inl e)
        with "1.prems" le c show ?thesis
          by (subst (asm) send_loop.simps) (auto simp: Let_def)
      next
        case (Inr resp)
        note m = this
        show ?thesis
        proof (cases resp)
          case None
          from le have le': "attempt \<le> max_attempts" by simp
          from "1.prems" have "send_loop L E (Inr payload) timeout tls max_attempts (attempt + 1)
           (AList.update ''error'' (JStr (py ''no_ack_or_timeout''))
             (AList.update ''sent_at'' (JStr (utcnow E (conns w + 1)))
               (AList.update ''attempts'' (JInt attempt) meta)))
           (w\<lparr>conns := conns w + 1, slept := slept w + 1\<rparr>) = (r, w')"
            using send_loop_no_ack [OF le', of E w payload timeout tls L meta] m None c by simp
          from "1.IH" [OF le refl c refl refl m refl None] this show ?thesis
            by (simp add: c)
        next
          case (Some ack)
          with "1.prems" le c m show ?thesis
            by (subst (asm) send_loop.simps) (auto simp: Let_def)
        qed
      qed
    qed
  qed
qed


lemma send_one_file_dirs:
  "send_one_file L E contents timeout tls max_attempts w = (r, w') \<Longrightarrow>
     ready w' = ready w \<and> sent w' = sent w \<and> failed w' = failed w \<and> archive w' = archive w"
  unfolding send_one_file_def by (rule send_loop_dirs)

text \<open>What the loop body does to a file that is in Ready, by the way it ends.\<close>

definition meta0 :: "str \<Rightarrow> meta" where
  "meta0 fname = [(''file'', JStr fname), (''attempts'', JInt 0), (''sent_at'', JNull),
     (''ack'', JNull), (''error'', JNull)]"

lemma process_file_absent:
  "map_of (ready w) fname = None \<Longrightarrow>
     process_file L E timeout tls max_attempts archive_on_sent fname w = (None, w)"
  by (simp add: process_file_def)

lemma process_file_invalid:
  assumes "map_of (ready w) fname = Some data"
    and "basic_validate_edifact_bytes L data = (False, note)"
  shows "\<exists>w'. process_file L E timeout tls max_attempts archive_on_sent fname w = (None, w')
    \<and> map_of (ready w') = (map_of (ready w))(fname := None, fname @ META_EXT := None)
    \<and> map_of (failed w') = (map_of (failed w))(fname \<mapsto> data, fname @ META_EXT \<mapsto>
         json_dump L (AList.update ''error'' (JStr (py ''validation_failed:'' @ note)) (meta0 fname)))
    \<and> sent w' = sent w \<and> archive w' = archive w \<and> conns w' = conns w \<and> slept w' = slept w"
  using assms META_EXT_nonempty [of fname]
  by (simp add: process_file_def validate_file_def read_file_def write_meta_for_send_def
      shutil_move_def relocate_def Let_def update_conv' delete_conv' meta0_def fun_upd_twist)


lemma process_file_sent:
  assumes "map_of (ready w) fname = Some data"
    and "basic_validate_edifact_bytes L data = (True, note)"
    and "send_one_file L E (Inr data) timeout tls max_attempts w = (Inr (True, m), w1)"
  shows "\<exists>w'. process_file L E timeout tls max_attempts archive_on_sent fname w = (None, w')
    \<and> map_of (ready w') = (map_of (ready w))(fname := None, fname @ META_EXT := None)
    \<and> map_of (sent w') = (map_of (sent w))(fname \<mapsto> data, fname @ META_EXT \<mapsto>
         json_dump L (dict_update (meta0 fname) m))
    \<and> failed w' = failed w \<and> conns w' = conns w1 \<and> slept w' = slept w1
    \<and> map_of (archive w') =
        (if archive_on_sent
         then (map_of (archive w))(fname \<mapsto> data, fname @ META_EXT \<mapsto>
                json_dump L (dict_update (meta0 fname) m))
         else map_of (archive w))"
  using assms META_EXT_nonempty [of fname] send_one_file_dirs [OF assms(3)]
  by (simp add: process_file_def validate_file_def read_file_def write_meta_for_send_def
      shutil_move_def shutil_copy2_def relocate_def archive_copy_def Let_def update_conv'
      delete_conv' meta0_def fun_upd_twist)

lemma process_file_failed:
  assumes "map_of (ready w) fname = Some data"
    and "basic_validate_edifact_bytes L data = (True, note)"
    and "send_one_file L E (Inr data) timeout tls max_attempts w = (Inr (False, m), w1)"
  shows "\<exists>w'. process_file L E timeout tls max_attempts archive_on_sent fname w = (None, w')
    \<and> map_of (ready w') = (map_of (ready w))(fname := None, fname @ META_EXT := None)
    \<and> map_of (failed w') = (map_of (failed w))(fname \<mapsto> data, fname @ META_EXT \<mapsto>
         json_dump L (dict_update (meta0 fname) m))
    \<and> sent w' = sent w \<and> archive w' = archive w \<and> conns w' = conns w1 \<and> slept w' = slept w1"
  using assms META_EXT_nonempty [of fname] send_one_file_dirs [OF assms(3)]
  by (simp add: process_file_def validate_file_def read_file_def write_meta_for_send_def
      shutil_move_def relocate_def Let_def update_conv' delete_conv' meta0_def fun_upd_twist)

lemma process_file_raises:
  assumes "map_of (ready w) fname = Some data"
    and "basic_validate_edifact_bytes L data = (True, note)"
    and "send_one_file L E (Inr data) timeout tls max_attempts w = (Inl e, w1)"
  shows "process_file L E timeout tls max_attempts archive_on_sent fname w = (Some e, w1)"
  using assms
  by (simp add: process_file_def validate_file_def read_file_def)


lemma process_file_outcome:
  assumes f: "map_of (ready w) fname = Some data"
    and p: "process_file L E timeout tls max_attempts archive_on_sent fname w = (None, w')"
  shows "map_of (ready w') = (map_of (ready w))(fname := None, fname @ META_EXT := None)
    \<and> ((\<exists>j. map_of (failed w') = (map_of (failed w))(fname \<mapsto> data, fname @ META_EXT \<mapsto> j))
          \<and> sent w' = sent w
        \<or> fst (basic_validate_edifact_bytes L data)
          \<and> (\<exists>j. map_of (sent w') = (map_of (sent w))(fname \<mapsto> data, fname @ META_EXT \<mapsto> j))
          \<and> failed w' = failed w)"
proof -
  obtain ok prev where v: "basic_validate_edifact_bytes L data = (ok, prev)"
    by (cases "basic_validate_edifact_bytes L data")
  show ?thesis
  proof (cases ok)
    case False
    with v have v': "basic_validate_edifact_bytes L data = (False, prev)" by simp
    from process_file_invalid [OF f v', of E timeout tls max_attempts archive_on_sent] p
    show ?thesis by auto
  next
    case True
    with v have v: "basic_validate_edifact_bytes L data = (True, prev)" by simp
    obtain r w1 where s: "send_one_file L E (Inr data) timeout tls max_attempts w = (r, w1)"
      by (cases "send_one_file L E (Inr data) timeout tls max_attempts w")
    show ?thesis
    proof (cases r)
      case (Inl e)
      with s have s': "send_one_file L E (Inr data) timeout tls max_attempts w = (Inl e, w1)"
        by simp
      from process_file_raises [OF f v s', of archive_on_sent] p show ?thesis
        by simp
    next
      case (Inr sm)
      obtain success m where sm: "sm = (success, m)" by (cases sm)
      show ?thesis
      proof (cases success)
        case True
        with s Inr sm
        have s': "send_one_file L E (Inr data) timeout tls max_attempts w = (Inr (True, m), w1)"
          by simp
        from process_file_sent [OF f v s', of archive_on_sent] p v
        show ?thesis by auto
      next
        case False
        with s Inr sm
        have s': "send_one_file L E (Inr data) timeout tls max_attempts w = (Inr (False, m), w1)"
          by simp
        from process_file_failed [OF f v s', of archive_on_sent] p
        show ?thesis by auto
      qed
    qed
  qed
qed

lemma process_file_invalid_outcome:
  assumes f: "map_of (ready w) fname = Some data"
    and p: "process_file L E timeout tls max_attempts archive_on_sent fname w = (None, w')"
    and v: "\<not> fst (basic_validate_edifact_bytes L data)"
  shows "map_of (failed w') fname = Some data \<and> sent w' = sent w"
proof -
  from v obtain prev where "basic_validate_edifact_bytes L data = (False, prev)"
    by (cases "basic_validate_edifact_bytes L data") simp
  from process_file_invalid [OF f this, of E timeout tls max_attempts archive_on_sent] p
    META_EXT_nonempty [of fname]
  show ?thesis by auto
qed

text \<open>A file name sorts before the name of its sidecar.\<close>

lemma less_append: "ys \<noteq> [] \<Longrightarrow> xs < xs @ (ys :: 'a :: linorder list)"
  by (induction xs) (auto simp: neq_Nil_conv)

lemma sorted_no_sidecar_before:
  assumes "sorted (f # files)" and "g \<in> set files"
  shows "g @ META_EXT \<noteq> f"
proof
  assume e: "g @ META_EXT = f"
  have "g < g @ META_EXT"
    by (rule less_append) (simp add: META_EXT_def py_def)
  with e have "g < f" by simp
  moreover from assms have "f \<le> g" by simp
  ultimately show False by simp
qed

text \<open>The loop leaves a name alone that is neither processed nor the sidecar of a file
  in the list.\<close>

lemma queue_loop_other:
  assumes "queue_loop L E timeout tls max_attempts archive_on_sent files w = (None, w')"
    and "\<forall>g \<in> set files. g @ META_EXT \<noteq> n"
    and "n \<notin> set files \<or> map_of (ready w) n = None"
  shows "map_of (ready w') n = map_of (ready w) n
    \<and> map_of (sent w') n = map_of (sent w) n
    \<and> map_of (failed w') n = map_of (failed w) n"
  using assms
proof (induction files arbitrary: w)
  case Nil
  then show ?case by simp
next
  case (Cons f files)
  obtain r w1 where p: "process_file L E timeout tls max_attempts archive_on_sent f w = (r, w1)"
    by (cases "process_file L E timeout tls max_attempts archive_on_sent f w")
  with Cons.prems(1) have r: "r = None"
    and q: "queue_loop L E timeout tls max_attempts archive_on_sent files w1 = (None, w')"
    by (auto split: option.splits)
  have same: "map_of (ready w1) n = map_of (ready w) n
    \<and> map_of (sent w1) n = map_of (sent w) n
    \<and> map_of (failed w1) n = map_of (failed w) n"
  proof (cases "map_of (ready w) f")
    case None
    from process_file_absent [OF None, of L E timeout tls max_attempts archive_on_sent] p
    show ?thesis by simp
  next
    case (Some data)
    with Cons.prems(3) have nf: "n \<noteq> f" by auto
    from Cons.prems(2) have nm: "n \<noteq> f @ META_EXT" by auto
    from process_file_outcome [OF Some p [unfolded r]] nf nm show ?thesis
      by auto
  qed
  from Cons.prems(2) have "\<forall>g \<in> set files. g @ META_EXT \<noteq> n" by simp
  moreover from Cons.prems(3) same have "n \<notin> set files \<or> map_of (ready w1) n = None"
    by auto
  ultimately show ?case using Cons.IH [OF q] same by simp
qed


text \<open>A file that is in Ready when the loop starts, and in neither Sent nor Failed, is
  moved to exactly one of them.\<close>

lemma queue_loop_moved:
  assumes "sorted files" and "distinct files"
    and "queue_loop L E timeout tls max_attempts archive_on_sent files w = (None, w')"
    and "n \<in> set files" and "map_of (ready w) n \<noteq> None"
    and "map_of (sent w) n = None" and "map_of (failed w) n = None"
  shows "map_of (ready w') n = None
    \<and> (map_of (sent w') n \<noteq> None) \<noteq> (map_of (failed w') n \<noteq> None)"
  using assms
proof (induction files arbitrary: w)
  case Nil
  then show ?case by simp
next
  case (Cons f files)
  obtain r w1 where p: "process_file L E timeout tls max_attempts archive_on_sent f w = (r, w1)"
    by (cases "process_file L E timeout tls max_attempts archive_on_sent f w")
  with Cons.prems(3) have r: "r = None"
    and q: "queue_loop L E timeout tls max_attempts archive_on_sent files w1 = (None, w')"
    by (auto split: option.splits)
  note p = p [unfolded r]
  from Cons.prems(1,2) have sd: "sorted files" "distinct files" by simp_all
  have side: "\<forall>g \<in> set files. g @ META_EXT \<noteq> f"
    using sorted_no_sidecar_before [OF Cons.prems(1)] by blast
  show ?case
  proof (cases "n = f")
    case True
    with Cons.prems(5) obtain data where d: "map_of (ready w) f = Some data" by auto
    from process_file_outcome [OF d p] Cons.prems(6,7) True META_EXT_nonempty [of f]
    have 1: "map_of (ready w1) n = None
      \<and> (map_of (sent w1) n \<noteq> None) \<noteq> (map_of (failed w1) n \<noteq> None)"
      by auto
    from queue_loop_other [OF q, of n] side True 1 show ?thesis by simp
  next
    case False
    with Cons.prems(4) have n: "n \<in> set files" by simp
    show ?thesis
    proof (cases "map_of (ready w) f")
      case None
      from process_file_absent [OF None, of L E timeout tls max_attempts archive_on_sent] p
      have "w1 = w" by simp
      with Cons.IH [OF sd q n] Cons.prems(5,6,7) show ?thesis by simp
    next
      case (Some data)
      show ?thesis
      proof (cases "n = f @ META_EXT")
        case True
        from process_file_outcome [OF Some p] Cons.prems(6,7) True META_EXT_nonempty [of f]
        have 1: "map_of (ready w1) n = None
          \<and> (map_of (sent w1) n \<noteq> None) \<noteq> (map_of (failed w1) n \<noteq> None)"
          by auto
        from Cons.prems(2) True have "\<forall>g \<in> set files. g @ META_EXT \<noteq> n" by auto
        from queue_loop_other [OF q this] 1 show ?thesis by simp
      next
        case nm: False
        from process_file_outcome [OF Some p] False nm
        have "map_of (ready w1) n = map_of (ready w) n
          \<and> map_of (sent w1) n = map_of (sent w) n
          \<and> map_of (failed w1) n = map_of (failed w) n"
          by auto
        with Cons.IH [OF sd q n] Cons.prems(5,6,7) show ?thesis by simp
      qed
    qed
  qed
qed

text \<open>A file that is in Ready when the loop starts has left Ready when the loop ends,
  and is then in Sent or in Failed, whatever those held before.\<close>

lemma queue_loop_gone:
  assumes "sorted files" and "distinct files"
    and "queue_loop L E timeout tls max_attempts archive_on_sent files w = (None, w')"
    and "n \<in> set files" and "map_of (ready w) n \<noteq> None"
  shows "map_of (ready w') n = None
    \<and> (map_of (sent w') n \<noteq> None \<or> map_of (failed w') n \<noteq> None)"
  using assms
proof (induction files arbitrary: w)
  case Nil
  then show ?case by simp
next
  case (Cons f files)
  obtain r w1 where p: "process_file L E timeout tls max_attempts archive_on_sent f w = (r, w1)"
    by (cases "process_file L E timeout tls max_attempts archive_on_sent f w")
  with Cons.prems(3) have r: "r = None"
    and q: "queue_loop L E timeout tls max_attempts archive_on_sent files w1 = (None, w')"
    by (auto split: option.splits)
  note p = p [unfolded r]
  from Cons.prems(1,2) have sd: "sorted files" "distinct files" by simp_all
  have side: "\<forall>g \<in> set files. g @ META_EXT \<noteq> f"
    using sorted_no_sidecar_before [OF Cons.prems(1)] by blast
  show ?case
  proof (cases "n = f")
    case True
    with Cons.prems(5) obtain data where d: "map_of (ready w) f = Some data" by auto
    from process_file_outcome [OF d p] True META_EXT_nonempty [of f]
    have 1: "map_of (ready w1) n = None
      \<and> (map_of (sent w1) n \<noteq> None \<or> map_of (failed w1) n \<noteq> None)"
      by auto
    from queue_loop_other [OF q, of n] side True 1 show ?thesis by simp
  next
    case False
    with Cons.prems(4) have n: "n \<in> set files" by simp
    show ?thesis
    proof (cases "map_of (ready w) f")
      case None
      from process_file_absent [OF None, of L E timeout tls max_attempts archive_on_sent] p
      have "w1 = w" by simp
      with Cons.IH [OF sd q n] Cons.prems(5) show ?thesis by simp
    next
      case (Some data)
      show ?thesis
      proof (cases "n = f @ META_EXT")
        case True
        from process_file_outcome [OF Some p] True META_EXT_nonempty [of f]
        have 1: "map_of (ready w1) n = None
          \<and> (map_of (sent w1) n \<noteq> None \<or> map_of (failed w1) n \<noteq> None)"
          by auto
        from Cons.prems(2) True have "\<forall>g \<in> set files. g @ META_EXT \<noteq> n" by auto
        from queue_loop_other [OF q this] 1 show ?thesis by simp
      next
        case nm: False
        from process_file_outcome [OF Some p] False nm
        have "map_of (ready w1) n = map_of (ready w) n"
          by auto
        with Cons.IH [OF sd q n] Cons.prems(5) show ?thesis by simp
      qed
    qed
  qed
qed

text \<open>A file that is in Ready when the loop starts and is not named as the sidecar of a
  file in the list is validated and moved with its content.\<close>

lemma queue_loop_document:
  assumes "queue_loop L E timeout tls max_attempts archive_on_sent files w = (None, w')"
    and "n \<in> set files" and "map_of (ready w) n = Some data"
    and "\<forall>g \<in> set files. g @ META_EXT \<noteq> n"
  shows "map_of (ready w') n = None
    \<and> (if fst (basic_validate_edifact_bytes L data)
       then map_of (sent w') n = Some data \<or> map_of (failed w') n = Some data
       else map_of (failed w') n = Some data \<and> map_of (sent w') n = map_of (sent w) n)"
  using assms
proof (induction files arbitrary: w)
  case Nil
  then show ?case by simp
next
  case (Cons f files)
  obtain r w1 where p: "process_file L E timeout tls max_attempts archive_on_sent f w = (r, w1)"
    by (cases "process_file L E timeout tls max_attempts archive_on_sent f w")
  with Cons.prems(1) have r: "r = None"
    and q: "queue_loop L E timeout tls max_attempts archive_on_sent files w1 = (None, w')"
    by (auto split: option.splits)
  note p = p [unfolded r]
  from Cons.prems(4) have side: "\<forall>g \<in> set files. g @ META_EXT \<noteq> n" by simp
  show ?case
  proof (cases "n = f")
    case True
    from process_file_outcome [OF Cons.prems(3) [unfolded True] p] True META_EXT_nonempty [of f]
    have 1: "map_of (ready w1) n = None
      \<and> (map_of (failed w1) n = Some data \<and> map_of (sent w1) n = map_of (sent w) n
         \<or> fst (basic_validate_edifact_bytes L data) \<and> map_of (sent w1) n = Some data)"
      by auto
    from queue_loop_other [OF q side] 1 show ?thesis by auto
  next
    case False
    with Cons.prems(2) have n: "n \<in> set files" by simp
    have "map_of (ready w1) n = map_of (ready w) n \<and> map_of (sent w1) n = map_of (sent w) n"
    proof (cases "map_of (ready w) f")
      case None
      from process_file_absent [OF None, of L E timeout tls max_attempts archive_on_sent] p
      show ?thesis by simp
    next
      case (Some fdata)
      from Cons.prems(4) have "n \<noteq> f @ META_EXT" by auto
      with process_file_outcome [OF Some p] False show ?thesis by auto
    qed
    with Cons.IH [OF q n _ side] Cons.prems(3) show ?thesis by simp
  qed
qed

text \<open>The sidecar of a file that the loop processes goes where the file goes.\<close>

lemma queue_loop_sidecar:
  assumes "sorted files" and "distinct files"
    and "queue_loop L E timeout tls max_attempts archive_on_sent files w = (None, w')"
    and "g \<in> set files" and "map_of (ready w) g = Some data"
    and "\<forall>h \<in> set files. h @ META_EXT \<noteq> g"
  shows "map_of (ready w') (g @ META_EXT) = None
    \<and> (map_of (sent w') g = Some data \<and> map_of (sent w') (g @ META_EXT) \<noteq> None
         \<and> map_of (failed w') (g @ META_EXT) = map_of (failed w) (g @ META_EXT)
       \<or> map_of (failed w') g = Some data \<and> map_of (failed w') (g @ META_EXT) \<noteq> None
         \<and> map_of (sent w') (g @ META_EXT) = map_of (sent w) (g @ META_EXT))"
  using assms
proof (induction files arbitrary: w)
  case Nil
  then show ?case by simp
next
  case (Cons f files)
  obtain r w1 where p: "process_file L E timeout tls max_attempts archive_on_sent f w = (r, w1)"
    by (cases "process_file L E timeout tls max_attempts archive_on_sent f w")
  with Cons.prems(3) have r: "r = None"
    and q: "queue_loop L E timeout tls max_attempts archive_on_sent files w1 = (None, w')"
    by (auto split: option.splits)
  note p = p [unfolded r]
  from Cons.prems(1,2) have sd: "sorted files" "distinct files" by simp_all
  from Cons.prems(6) have side: "\<forall>h \<in> set files. h @ META_EXT \<noteq> g" by simp
  show ?case
  proof (cases "g = f")
    case True
    from Cons.prems(2) True have gn: "g \<notin> set files" by simp
    then have side': "\<forall>h \<in> set files. h @ META_EXT \<noteq> g @ META_EXT" by auto
    from process_file_outcome [OF Cons.prems(5) [unfolded True] p] True META_EXT_nonempty [of f]
    have 1: "map_of (ready w1) (g @ META_EXT) = None
      \<and> (map_of (sent w1) g = Some data \<and> map_of (sent w1) (g @ META_EXT) \<noteq> None
           \<and> map_of (failed w1) (g @ META_EXT) = map_of (failed w) (g @ META_EXT)
         \<or> map_of (failed w1) g = Some data \<and> map_of (failed w1) (g @ META_EXT) \<noteq> None
           \<and> map_of (sent w1) (g @ META_EXT) = map_of (sent w) (g @ META_EXT))"
      by auto
    from queue_loop_other [OF q side] gn
    have 2: "map_of (sent w') g = map_of (sent w1) g
      \<and> map_of (failed w') g = map_of (failed w1) g"
      by simp
    from queue_loop_other [OF q side'] 1
    have 3: "map_of (ready w') (g @ META_EXT) = map_of (ready w1) (g @ META_EXT)
      \<and> map_of (sent w') (g @ META_EXT) = map_of (sent w1) (g @ META_EXT)
      \<and> map_of (failed w') (g @ META_EXT) = map_of (failed w1) (g @ META_EXT)"
      by simp
    from 1 2 3 show ?thesis by simp
  next
    case False
    with Cons.prems(4) have g: "g \<in> set files" by simp
    with Cons.prems(1) have "f \<le> g" by simp
    moreover have "g < g @ META_EXT"
      by (rule less_append) (simp add: META_EXT_def py_def)
    ultimately have fm: "f \<noteq> g @ META_EXT" by auto
    from Cons.prems(6) have gf: "g \<noteq> f @ META_EXT" by auto
    from False have mm: "g @ META_EXT \<noteq> f @ META_EXT" by simp
    have same: "map_of (ready w1) g = map_of (ready w) g
      \<and> map_of (sent w1) (g @ META_EXT) = map_of (sent w) (g @ META_EXT)
      \<and> map_of (failed w1) (g @ META_EXT) = map_of (failed w) (g @ META_EXT)"
    proof (cases "map_of (ready w) f")
      case None
      from process_file_absent [OF None, of L E timeout tls max_attempts archive_on_sent] p
      show ?thesis by simp
    next
      case (Some fdata)
      from process_file_outcome [OF Some p] False fm gf mm show ?thesis by auto
    qed
    with Cons.IH [OF sd q g _ side] Cons.prems(5) show ?thesis by simp
  qed
qed

lemma set_listdir: "set (listdir d) = {n. map_of d n \<noteq> None}"
  by (auto simp: listdir_def map_of_eq_None_iff)

lemma ready_files_sort: "ready_files L w = sort (listdir (ready w))"
  by (simp add: ready_files_def)

lemma ready_files_props:
  "sorted (ready_files L w) \<and> distinct (ready_files L w)
   \<and> set (ready_files L w) = {n. map_of (ready w) n \<noteq> None}"
  by (simp add: ready_files_sort set_listdir) (simp add: listdir_def)

text \<open>When no connection lets an exception through, the worker returns.\<close>

lemma send_loop_returns:
  "(\<forall>i payload. \<exists>r. mllp_send (network E i) payload timeout tls = Inr r) \<Longrightarrow>
     \<exists>r. fst (send_loop L E contents timeout tls max_attempts attempt meta w) = Inr r"
proof (induction L E contents timeout tls max_attempts attempt meta w rule: send_loop.induct)
  case (1 L E contents timeout tls max_attempts attempt meta w)
  show ?case
  proof (cases "max_attempts < attempt")
    case True
    then show ?thesis by (auto simp: send_loop_done)
  next
    case False
    note le = this
    then have le': "attempt \<le> max_attempts" by simp
    show ?thesis
    proof (cases contents)
      case (Inl e)
      with le show ?thesis
        by (subst send_loop.simps) (auto simp: Let_def)
    next
      case (Inr payload)
      note c = this
      from "1.prems" obtain r where
        m: "mllp_send (network E (conns w)) payload timeout tls = Inr r"
        by blast
      show ?thesis
      proof (cases r)
        case None
        from "1.IH" [OF le refl c refl refl m [unfolded None] refl refl "1.prems"]
        show ?thesis
          unfolding c send_loop_no_ack [OF le' m [unfolded None]] by (simp add: c)
      next
        case (Some ack)
        show ?thesis
          unfolding c send_loop_ack [OF le' m [unfolded Some]] by auto
      qed
    qed
  qed
qed

lemma process_file_returns:
  assumes "\<forall>i payload. \<exists>r. mllp_send (network E i) payload timeout tls = Inr r"
  shows "fst (process_file L E timeout tls max_attempts archive_on_sent fname w) = None"
proof (cases "map_of (ready w) fname")
  case None
  then show ?thesis by (simp add: process_file_absent)
next
  case (Some data)
  obtain ok prev where v: "basic_validate_edifact_bytes L data = (ok, prev)"
    by (cases "basic_validate_edifact_bytes L data")
  show ?thesis
  proof (cases ok)
    case False
    with v have v': "basic_validate_edifact_bytes L data = (False, prev)" by simp
    from process_file_invalid [OF Some v', of E timeout tls max_attempts archive_on_sent]
    show ?thesis by auto
  next
    case True
    with v have v: "basic_validate_edifact_bytes L data = (True, prev)" by simp
    from send_loop_returns [OF assms] obtain r where
      "fst (send_one_file L E (Inr data) timeout tls max_attempts w) = Inr r"
      unfolding send_one_file_def by blast
    then obtain success m w1 where
      s: "send_one_file L E (Inr data) timeout tls max_attempts w = (Inr (success, m), w1)"
      by (cases "send_one_file L E (Inr data) timeout tls max_attempts w"; cases r) auto
    show ?thesis
    proof (cases success)
      case True
      with s have "send_one_file L E (Inr data) timeout tls max_attempts w
          = (Inr (True, m), w1)"
        by simp
      from process_file_sent [OF Some v this, of archive_on_sent]
      show ?thesis by auto
    next
      case False
      with s have "send_one_file L E (Inr data) timeout tls max_attempts w
          = (Inr (False, m), w1)"
        by simp
      from process_file_failed [OF Some v this, of archive_on_sent]
      show ?thesis by auto
    qed
  qed
qed

lemma process_ready_queue_returns:
  assumes "\<forall>i payload. \<exists>r. mllp_send (network E i) payload timeout tls = Inr r"
  shows "fst (process_ready_queue L E timeout tls max_attempts archive_on_sent w) = None"
proof -
  have "fst (queue_loop L E timeout tls max_attempts archive_on_sent files w) = None"
    for files w
  proof (induction files arbitrary: w)
    case Nil
    show ?case by simp
  next
    case (Cons f files)
    from process_file_returns [OF assms, of L max_attempts archive_on_sent f w]
    obtain w1 where
      "process_file L E timeout tls max_attempts archive_on_sent f w = (None, w1)"
      by (cases "process_file L E timeout tls max_attempts archive_on_sent f w") simp
    with Cons.IH [of w1] show ?case by simp
  qed
  then show ?thesis by (simp add: process_ready_queue_def)
qed

subsection \<open>Concrete runs\<close>

lemma queue_loop_absent:
  "\<forall>g \<in> set files. map_of (ready w) g = None \<Longrightarrow>
     queue_loop L E timeout tls max_attempts archive_on_sent files w = (None, w)"
  by (induction files) (simp_all add: process_file_absent)

lemma run_one_delivered:
  assumes files: "ready_files L w = f # rest" and rest: "set rest \<subseteq> {f @ META_EXT}"
    and f: "map_of (ready w) f = Some data"
    and v: "basic_validate_edifact_bytes L data = (True, prev)"
    and s: "send_one_file L E (Inr data) timeout tls max_attempts w = (Inr (True, m), w1)"
  shows "\<exists>w'. process_ready_queue L E timeout tls max_attempts archive_on_sent w = (None, w')
    \<and> map_of (ready w') = (map_of (ready w))(f := None, f @ META_EXT := None)
    \<and> map_of (sent w') = (map_of (sent w))(f \<mapsto> data, f @ META_EXT \<mapsto>
         json_dump L (dict_update (meta0 f) m))
    \<and> failed w' = failed w"
proof -
  from process_file_sent [OF f v s, of archive_on_sent] obtain w' where
    p: "process_file L E timeout tls max_attempts archive_on_sent f w = (None, w')"
    and r: "map_of (ready w') = (map_of (ready w))(f := None, f @ META_EXT := None)"
    and s: "map_of (sent w') = (map_of (sent w))(f \<mapsto> data, f @ META_EXT \<mapsto>
         json_dump L (dict_update (meta0 f) m))"
    and fl: "failed w' = failed w"
    by blast
  from rest r have "\<forall>g \<in> set rest. map_of (ready w') g = None" by auto
  from queue_loop_absent [OF this] p
  have "process_ready_queue L E timeout tls max_attempts archive_on_sent w = (None, w')"
    by (simp add: process_ready_queue_def files)
  with r s fl show ?thesis by blast
qed

text \<open>Sample surroundings: every connection is answered with the frame of "ACK".\<close>

definition env_ok :: environ where
  "env_ok = \<lparr>network = (\<lambda>i. answering (ascii ''ACK'')),
     utcnow = (\<lambda>i. py ''2024-05-01T10:00:00'')\<rparr>"

lemma validate_order_ok: "basic_validate_edifact_bytes sample_lib order_ok = (True, py ''ok'')"
  by (simp add: basic_validate_edifact_bytes_def eval_defs order_ok_def)

lemma validate_braces: "basic_validate_edifact_bytes sample_lib (ascii ''{}'')
    = (False, py ''missing_UNA_or_UNB'')"
  by (simp add: basic_validate_edifact_bytes_def eval_defs)

lemma send_ok_first:
  "conns w = 0 \<Longrightarrow> send_one_file sample_lib env_ok (Inr data) 15 False 3 w
    = (Inr (True,
         [(''attempts'', JInt 1), (''sent_at'', JStr (py ''2024-05-01T10:00:00'')),
          (''ack'', JStr (py ''ACK'')), (''error'', JNull)]),
       w\<lparr>conns := 1\<rparr>)"
proof -
  have "\<not> contains END_BLOCK (ascii ''ACK'')"
    by (simp add: contains_def END_BLOCK_def ascii_def)
  from mllp_send_answering [OF this]
  have "mllp_send (network env_ok (conns w)) data 15 False = Inr (Some (ascii ''ACK''))"
    by (simp add: env_ok_def)
  from send_loop_ack [OF _ this, of 1 3 sample_lib]
  have e: "send_loop sample_lib env_ok (Inr data) 15 False 3 1 meta w =
      (Inr (True,
         AList.update ''ack'' (JStr (decode_utf8 sample_lib (ascii ''ACK'')))
          (AList.update ''sent_at'' (JStr (utcnow env_ok (conns w + 1)))
            (AList.update ''attempts'' (JInt 1) meta))),
       w\<lparr>conns := conns w + 1\<rparr>)" for meta
    by simp
  show ?thesis if "conns w = 0"
    unfolding send_one_file_def e using that
    by (simp add: env_ok_def sample_lib_def ascii_def py_def)
qed


lemma run_one_invalid:
  assumes files: "ready_files L w = [f]"
    and f: "map_of (ready w) f = Some data"
    and v: "basic_validate_edifact_bytes L data = (False, prev)"
  shows "\<exists>w'. process_ready_queue L E timeout tls max_attempts archive_on_sent w = (None, w')
    \<and> map_of (ready w') = (map_of (ready w))(f := None, f @ META_EXT := None)
    \<and> map_of (failed w') = (map_of (failed w))(f \<mapsto> data, f @ META_EXT \<mapsto>
         json_dump L (AList.update ''error'' (JStr (py ''validation_failed:'' @ prev)) (meta0 f)))
    \<and> sent w' = sent w"
  using process_file_invalid [OF f v, of E timeout tls max_attempts archive_on_sent]
  by (auto simp: process_ready_queue_def files)

text \<open>
  Sample states of the directories: a document queued with its sidecar; a document queued
  again after an earlier run left a copy in Failed; a sidecar alone in Ready.
\<close>

definition w_queued :: world where
  "w_queued = \<lparr>ready = [(py ''a.edi'', order_ok), (py ''a.edi.meta.json'', ascii ''{}'')],
     sent = [], failed = [], archive = [], conns = 0, slept = 0\<rparr>"

definition w_requeued :: world where
  "w_requeued = \<lparr>ready = [(py ''a.edi'', order_ok)],
     sent = [], failed = [(py ''a.edi'', order_ok)], archive = [], conns = 0, slept = 0\<rparr>"

definition w_orphan :: world where
  "w_orphan = \<lparr>ready = [(py ''b.meta.json'', ascii ''{}'')],
     sent = [], failed = [], archive = [], conns = 0, slept = 0\<rparr>"

lemma run_w_queued:
  "\<exists>w'. process_ready_queue sample_lib env_ok 15 False 3 True w_queued = (None, w')
    \<and> map_of (ready w') (py ''a.edi'') = None
    \<and> map_of (ready w') (py ''a.edi.meta.json'') = None
    \<and> map_of (sent w') (py ''a.edi'') = Some order_ok
    \<and> map_of (sent w') (py ''a.edi.meta.json'') \<noteq> None
    \<and> map_of (sent w') (py ''a.edi.meta.json.meta.json'') = None
    \<and> failed w' = []"
proof -
  have files: "ready_files sample_lib w_queued = py ''a.edi'' # [py ''a.edi.meta.json'']"
    by (simp add: ready_files_def listdir_def w_queued_def py_def)
  have rest: "set [py ''a.edi.meta.json''] \<subseteq> {py ''a.edi'' @ META_EXT}"
    by (simp add: META_EXT_def py_def)
  have f: "map_of (ready w_queued) (py ''a.edi'') = Some order_ok"
    by (simp add: w_queued_def)
  have c: "conns w_queued = 0" by (simp add: w_queued_def)
  have m: "py ''a.edi'' @ META_EXT = py ''a.edi.meta.json''"
    by (simp add: META_EXT_def py_def)
  have ne: "py ''a.edi'' \<noteq> py ''a.edi.meta.json''"
    "py ''a.edi.meta.json.meta.json'' \<noteq> py ''a.edi''"
    "py ''a.edi.meta.json.meta.json'' \<noteq> py ''a.edi.meta.json''"
    by (simp_all add: py_def)
  from run_one_delivered [OF files rest f validate_order_ok send_ok_first [OF c], of True] ne
  show ?thesis
    unfolding m by (auto simp: w_queued_def)
qed

lemma run_w_requeued:
  "\<exists>w'. process_ready_queue sample_lib env_ok 15 False 3 True w_requeued = (None, w')
    \<and> map_of (sent w') (py ''a.edi'') = Some order_ok
    \<and> map_of (failed w') (py ''a.edi'') = Some order_ok"
proof -
  have files: "ready_files sample_lib w_requeued = py ''a.edi'' # []"
    by (simp add: ready_files_def listdir_def w_requeued_def py_def)
  have f: "map_of (ready w_requeued) (py ''a.edi'') = Some order_ok"
    by (simp add: w_requeued_def)
  have c: "conns w_requeued = 0" by (simp add: w_requeued_def)
  from run_one_delivered [OF files _ f validate_order_ok send_ok_first [OF c], of True]
    META_EXT_nonempty [of "py ''a.edi''"]
  show ?thesis
    by (auto simp: w_requeued_def)
qed

lemma run_w_orphan:
  "\<exists>w'. process_ready_queue sample_lib env_ok 15 False 3 True w_orphan = (None, w')
    \<and> map_of (ready w') (py ''b.meta.json'') = None
    \<and> map_of (failed w') (py ''b.meta.json'') = Some (ascii ''{}'')
    \<and> sent w' = []"
proof -
  have files: "ready_files sample_lib w_orphan = [py ''b.meta.json'']"
    by (simp add: ready_files_def listdir_def w_orphan_def py_def)
  have f: "map_of (ready w_orphan) (py ''b.meta.json'') = Some (ascii ''{}'')"
    by (simp add: w_orphan_def)
  from run_one_invalid [OF files f validate_braces, of env_ok 15 False 3 True]
    META_EXT_nonempty [of "py ''b.meta.json''"]
  show ?thesis
    by (auto simp: w_orphan_def)
qed


subsection \<open>Claims about the queue\<close>

text \<open>
  C1, as stated, fails: a document that an earlier run left in Failed and that is queued
  again is delivered and moved to Sent, and is then in Sent and in Failed.
\<close>

theorem runQueue_requeued_counterexample:
  "fst (process_ready_queue sample_lib env_ok 15 False 3 True w_requeued) = None
   \<and> map_of (ready w_requeued) (py ''a.edi'') = Some order_ok
   \<and> map_of (sent (snd (process_ready_queue sample_lib env_ok 15 False 3 True w_requeued)))
        (py ''a.edi'') = Some order_ok
   \<and> map_of (failed (snd (process_ready_queue sample_lib env_ok 15 False 3 True w_requeued)))
        (py ''a.edi'') = Some order_ok"
  using run_w_requeued by (auto simp: w_requeued_def)

text \<open>
  C1, amended. When \<^verbatim>\<open>process_ready_queue\<close> returns, every file that was in Ready when it
  started is no longer in Ready and is in Sent or in Failed; if it was in neither Sent nor
  Failed at the start, it is in exactly one of them. And whenever the loop body finds a
  file in Ready: if the file is
  invalid it goes to Failed, its sidecar with the validation note beside it; if it is
  valid it goes to Sent when the delivery succeeds and to Failed when the delivery fails.
  The function does return whenever no connection lets an exception through.
\<close>

theorem runQueue_terminal:
  assumes "process_ready_queue L E timeout tls max_attempts archive_on_sent w = (None, w')"
    and "map_of (ready w) n = Some data"
  shows "map_of (ready w') n = None
    \<and> (map_of (sent w') n \<noteq> None \<or> map_of (failed w') n \<noteq> None)
    \<and> (map_of (sent w) n = None \<and> map_of (failed w) n = None \<longrightarrow>
          (map_of (sent w') n \<noteq> None) \<noteq> (map_of (failed w') n \<noteq> None))
    \<and> (\<forall>v prev. map_of (ready v) n = Some data
          \<and> basic_validate_edifact_bytes L data = (False, prev) \<longrightarrow>
          (\<exists>v'. process_file L E timeout tls max_attempts archive_on_sent n v = (None, v')
             \<and> map_of (ready v') n = None \<and> map_of (failed v') n = Some data
             \<and> map_of (failed v') (n @ META_EXT) = Some (json_dump L
                  (AList.update ''error'' (JStr (py ''validation_failed:'' @ prev)) (meta0 n)))
             \<and> sent v' = sent v))
    \<and> (\<forall>v prev m v1. map_of (ready v) n = Some data
          \<and> basic_validate_edifact_bytes L data = (True, prev)
          \<and> send_one_file L E (Inr data) timeout tls max_attempts v = (Inr (True, m), v1) \<longrightarrow>
          (\<exists>v'. process_file L E timeout tls max_attempts archive_on_sent n v = (None, v')
             \<and> map_of (ready v') n = None \<and> map_of (sent v') n = Some data
             \<and> failed v' = failed v))
    \<and> (\<forall>v prev m v1. map_of (ready v) n = Some data
          \<and> basic_validate_edifact_bytes L data = (True, prev)
          \<and> send_one_file L E (Inr data) timeout tls max_attempts v = (Inr (False, m), v1) \<longrightarrow>
          (\<exists>v'. process_file L E timeout tls max_attempts archive_on_sent n v = (None, v')
             \<and> map_of (ready v') n = None \<and> map_of (failed v') n = Some data
             \<and> sent v' = sent v))
    \<and> ((\<forall>i payload. \<exists>r. mllp_send (network E i) payload timeout tls = Inr r) \<longrightarrow>
          (\<forall>v. fst (process_ready_queue L E timeout tls max_attempts archive_on_sent v) = None))"
proof -
  note props = ready_files_props [of L w]
  from props assms(2) have n: "n \<in> set (ready_files L w)" by simp
  from assms(2) have r: "map_of (ready w) n \<noteq> None" by simp
  from props have sd: "sorted (ready_files L w)" "distinct (ready_files L w)" by simp_all
  note q = assms(1) [unfolded process_ready_queue_def]
  have gone: "map_of (ready w') n = None
    \<and> (map_of (sent w') n \<noteq> None \<or> map_of (failed w') n \<noteq> None)"
    by (rule queue_loop_gone [OF sd q n r])
  have run: "(map_of (sent w') n \<noteq> None) \<noteq> (map_of (failed w') n \<noteq> None)"
    if "map_of (sent w) n = None \<and> map_of (failed w) n = None"
  proof -
    from that have s: "map_of (sent w) n = None" and f: "map_of (failed w) n = None"
      by simp_all
    from queue_loop_moved [OF sd q n r s f] show ?thesis by simp
  qed
  have inv: "\<exists>v'. process_file L E timeout tls max_attempts archive_on_sent n v = (None, v')
      \<and> map_of (ready v') n = None \<and> map_of (failed v') n = Some data
      \<and> map_of (failed v') (n @ META_EXT) = Some (json_dump L
           (AList.update ''error'' (JStr (py ''validation_failed:'' @ prev)) (meta0 n)))
      \<and> sent v' = sent v"
    if "map_of (ready v) n = Some data \<and> basic_validate_edifact_bytes L data = (False, prev)"
    for v prev
    using that
      process_file_invalid [of v n data L prev E timeout tls max_attempts archive_on_sent]
      META_EXT_nonempty [of n]
    by auto
  have ok: "\<exists>v'. process_file L E timeout tls max_attempts archive_on_sent n v = (None, v')
      \<and> map_of (ready v') n = None \<and> map_of (sent v') n = Some data \<and> failed v' = failed v"
    if "map_of (ready v) n = Some data \<and> basic_validate_edifact_bytes L data = (True, prev)
      \<and> send_one_file L E (Inr data) timeout tls max_attempts v = (Inr (True, m), v1)"
    for v prev m v1
    using that
      process_file_sent [of v n data L prev E timeout tls max_attempts m v1 archive_on_sent]
      META_EXT_nonempty [of n]
    by auto
  have ko: "\<exists>v'. process_file L E timeout tls max_attempts archive_on_sent n v = (None, v')
      \<and> map_of (ready v') n = None \<and> map_of (failed v') n = Some data \<and> sent v' = sent v"
    if "map_of (ready v) n = Some data \<and> basic_validate_edifact_bytes L data = (True, prev)
      \<and> send_one_file L E (Inr data) timeout tls max_attempts v = (Inr (False, m), v1)"
    for v prev m v1
    using that
      process_file_failed [of v n data L prev E timeout tls max_attempts m v1 archive_on_sent]
      META_EXT_nonempty [of n]
    by auto
  have fin: "\<forall>v. fst (process_ready_queue L E timeout tls max_attempts archive_on_sent v) = None"
    if "\<forall>i payload. \<exists>r. mllp_send (network E i) payload timeout tls = Inr r"
    using process_ready_queue_returns [OF that] by blast
  from gone run inv ok ko fin show ?thesis by blast
qed

theorem runQueue_terminal_witness:
  "process_ready_queue sample_lib env_ok 15 False 3 True w_queued
     = (None, snd (process_ready_queue sample_lib env_ok 15 False 3 True w_queued))
   \<and> map_of (ready w_queued) (py ''a.edi.meta.json'') = Some (ascii ''{}'')
   \<and> map_of (sent w_queued) (py ''a.edi.meta.json'') = None
   \<and> map_of (failed w_queued) (py ''a.edi.meta.json'') = None
   \<and> map_of (ready (snd (process_ready_queue sample_lib env_ok 15 False 3 True w_queued)))
        (py ''a.edi.meta.json'') = None
   \<and> (map_of (sent (snd (process_ready_queue sample_lib env_ok 15 False 3 True w_queued)))
        (py ''a.edi.meta.json'') \<noteq> None)
     \<noteq> (map_of (failed (snd (process_ready_queue sample_lib env_ok 15 False 3 True w_queued)))
        (py ''a.edi.meta.json'') \<noteq> None)
   \<and> process_ready_queue sample_lib env_ok 15 False 3 True w_requeued
     = (None, snd (process_ready_queue sample_lib env_ok 15 False 3 True w_requeued))
   \<and> map_of (ready w_requeued) (py ''a.edi'') = Some order_ok
   \<and> map_of (ready (snd (process_ready_queue sample_lib env_ok 15 False 3 True w_requeued)))
        (py ''a.edi'') = None"
proof -
  let ?run = "process_ready_queue sample_lib env_ok 15 False 3 True w_queued"
  let ?again = "process_ready_queue sample_lib env_ok 15 False 3 True w_requeued"
  from run_w_queued have 1: "?run = (None, snd ?run)" by auto
  have ne: "py ''a.edi'' \<noteq> py ''a.edi.meta.json''"
    by (simp add: py_def)
  with ne have 2: "map_of (ready w_queued) (py ''a.edi.meta.json'') = Some (ascii ''{}'')"
    by (simp add: w_queued_def)
  have 3: "map_of (sent w_queued) (py ''a.edi.meta.json'') = None
      \<and> map_of (failed w_queued) (py ''a.edi.meta.json'') = None"
    by (simp add: w_queued_def)
  from run_w_requeued have 4: "?again = (None, snd ?again)" by auto
  have 5: "map_of (ready w_requeued) (py ''a.edi'') = Some order_ok"
    by (simp add: w_requeued_def)
  from runQueue_terminal [OF 1 2] 3
  have 6: "map_of (ready (snd ?run)) (py ''a.edi.meta.json'') = None
    \<and> (map_of (sent (snd ?run)) (py ''a.edi.meta.json'') \<noteq> None)
      \<noteq> (map_of (failed (snd ?run)) (py ''a.edi.meta.json'') \<noteq> None)"
    by blast
  from runQueue_terminal [OF 4 5]
  have 7: "map_of (ready (snd ?again)) (py ''a.edi'') = None"
    by blast
  from 1 2 3 4 5 6 7 show ?thesis by blast
qed

text \<open>
  C9, as stated, fails for the sidecar of a queued document: the sidecar is in the
  snapshot and is not a valid document, but the loop body never validates it. It is
  overwritten and moved to Sent together with its document, and when its own turn comes
  it is gone from Ready and skipped.
\<close>

theorem runQueue_sidecar_counterexample:
  "map_of (ready w_queued) (py ''a.edi.meta.json'') = Some (ascii ''{}'')
   \<and> py ''a.edi.meta.json'' \<in> set (ready_files sample_lib w_queued)
   \<and> \<not> fst (basic_validate_edifact_bytes sample_lib (ascii ''{}''))
   \<and> fst (process_ready_queue sample_lib env_ok 15 False 3 True w_queued) = None
   \<and> map_of (sent (snd (process_ready_queue sample_lib env_ok 15 False 3 True w_queued)))
        (py ''a.edi.meta.json'') \<noteq> None
   \<and> map_of (failed (snd (process_ready_queue sample_lib env_ok 15 False 3 True w_queued)))
        (py ''a.edi.meta.json'') = None
   \<and> map_of (sent (snd (process_ready_queue sample_lib env_ok 15 False 3 True w_queued)))
        (py ''a.edi.meta.json.meta.json'') = None
   \<and> map_of (failed (snd (process_ready_queue sample_lib env_ok 15 False 3 True w_queued)))
        (py ''a.edi.meta.json.meta.json'') = None"
proof -
  have ne: "py ''a.edi'' \<noteq> py ''a.edi.meta.json''"
    by (simp add: py_def)
  then have 1: "map_of (ready w_queued) (py ''a.edi.meta.json'') = Some (ascii ''{}'')"
    by (simp add: w_queued_def)
  have 2: "py ''a.edi.meta.json'' \<in> set (ready_files sample_lib w_queued)"
    using 1 ready_files_props [of sample_lib w_queued] by simp
  have 3: "\<not> fst (basic_validate_edifact_bytes sample_lib (ascii ''{}''))"
    by (simp add: validate_braces)
  from run_w_queued 1 2 3 show ?thesis by auto
qed

text \<open>
  C9, amended. The filter of the list comprehension removes nothing: the snapshot is the
  sorted list of all names in Ready, whatever their extension. A file of the snapshot
  whose name is not that of the sidecar of a file in Ready is processed as a document
  whatever its name: when \<^verbatim>\<open>process_ready_queue\<close> returns it has left Ready, for Failed if
  its content is invalid and for Sent or Failed if it is valid. So a sidecar file that is
  in Ready without its document is validated and moved like a document. The sidecar of
  such a file goes with it: whatever was in Ready under the sidecar's name is gone from
  Ready, and a file of that name stands beside the document in Sent or in Failed.
\<close>

theorem runQueue_any_name:
  "ready_files L w = sort (listdir (ready w))
   \<and> set (ready_files L w) = {n. map_of (ready w) n \<noteq> None}
   \<and> (process_ready_queue L E timeout tls max_attempts archive_on_sent w = (None, w')
        \<and> map_of (ready w) n = Some data
        \<and> (\<forall>g. map_of (ready w) g \<noteq> None \<longrightarrow> g @ META_EXT \<noteq> n) \<longrightarrow>
      map_of (ready w') n = None
      \<and> (if fst (basic_validate_edifact_bytes L data)
         then map_of (sent w') n = Some data \<or> map_of (failed w') n = Some data
         else map_of (failed w') n = Some data \<and> map_of (sent w') n = map_of (sent w) n)
      \<and> map_of (ready w') (n @ META_EXT) = None
      \<and> (map_of (sent w') n = Some data \<and> map_of (sent w') (n @ META_EXT) \<noteq> None
           \<and> map_of (failed w') (n @ META_EXT) = map_of (failed w) (n @ META_EXT)
         \<or> map_of (failed w') n = Some data \<and> map_of (failed w') (n @ META_EXT) \<noteq> None
           \<and> map_of (sent w') (n @ META_EXT) = map_of (sent w) (n @ META_EXT)))"
proof -
  note props = ready_files_props [of L w]
  have "map_of (ready w') n = None
      \<and> (if fst (basic_validate_edifact_bytes L data)
         then map_of (sent w') n = Some data \<or> map_of (failed w') n = Some data
         else map_of (failed w') n = Some data \<and> map_of (sent w') n = map_of (sent w) n)
      \<and> map_of (ready w') (n @ META_EXT) = None
      \<and> (map_of (sent w') n = Some data \<and> map_of (sent w') (n @ META_EXT) \<noteq> None
           \<and> map_of (failed w') (n @ META_EXT) = map_of (failed w) (n @ META_EXT)
         \<or> map_of (failed w') n = Some data \<and> map_of (failed w') (n @ META_EXT) \<noteq> None
           \<and> map_of (sent w') (n @ META_EXT) = map_of (sent w) (n @ META_EXT))"
    if a: "process_ready_queue L E timeout tls max_attempts archive_on_sent w = (None, w')
        \<and> map_of (ready w) n = Some data
        \<and> (\<forall>g. map_of (ready w) g \<noteq> None \<longrightarrow> g @ META_EXT \<noteq> n)"
  proof -
    from a have q: "queue_loop L E timeout tls max_attempts archive_on_sent (ready_files L w) w
        = (None, w')"
      by (simp add: process_ready_queue_def)
    from a props have n: "n \<in> set (ready_files L w)" by simp
    from a have d: "map_of (ready w) n = Some data" by simp
    from a props have side: "\<forall>g \<in> set (ready_files L w). g @ META_EXT \<noteq> n" by simp
    from props have sd: "sorted (ready_files L w)" "distinct (ready_files L w)" by simp_all
    from queue_loop_document [OF q n d side] queue_loop_sidecar [OF sd q n d side]
    show ?thesis by blast
  qed
  with props ready_files_sort [of L w] show ?thesis by blast
qed

theorem runQueue_any_name_witness:
  "ready_files sample_lib w_orphan = [py ''b.meta.json'']
   \<and> process_ready_queue sample_lib env_ok 15 False 3 True w_orphan
       = (None, snd (process_ready_queue sample_lib env_ok 15 False 3 True w_orphan))
   \<and> map_of (ready w_orphan) (py ''b.meta.json'') = Some (ascii ''{}'')
   \<and> \<not> fst (basic_validate_edifact_bytes sample_lib (ascii ''{}''))
   \<and> map_of (ready (snd (process_ready_queue sample_lib env_ok 15 False 3 True w_orphan)))
        (py ''b.meta.json'') = None
   \<and> map_of (failed (snd (process_ready_queue sample_lib env_ok 15 False 3 True w_orphan)))
        (py ''b.meta.json'') = Some (ascii ''{}'')"
proof -
  let ?run = "process_ready_queue sample_lib env_ok 15 False 3 True w_orphan"
  have 0: "ready_files sample_lib w_orphan = [py ''b.meta.json'']"
    by (simp add: ready_files_def listdir_def w_orphan_def)
  from run_w_orphan have 1: "?run = (None, snd ?run)" by auto
  have 2: "map_of (ready w_orphan) (py ''b.meta.json'') = Some (ascii ''{}'')"
    by (simp add: w_orphan_def)
  have 3: "\<forall>g. map_of (ready w_orphan) g \<noteq> None \<longrightarrow> g @ META_EXT \<noteq> py ''b.meta.json''"
    using META_EXT_nonempty [of "py ''b.meta.json''"] by (simp add: w_orphan_def)
  have 4: "\<not> fst (basic_validate_edifact_bytes sample_lib (ascii ''{}''))"
    by (simp add: validate_braces)
  from runQueue_any_name [of sample_lib w_orphan env_ok 15 False 3 True "snd ?run"
      "py ''b.meta.json''" "ascii ''{}''"] 1 2 3 4
  have "map_of (ready (snd ?run)) (py ''b.meta.json'') = None
      \<and> map_of (failed (snd ?run)) (py ''b.meta.json'') = Some (ascii ''{}'')"
    by simp
  with 0 1 2 4 show ?thesis by blast
qed


subsection \<open>Claims about promotion to Ready\<close>

text \<open>
  C6. When a file of the same base name is in Ready: without \<^verbatim>\<open>force\<close>, \<^verbatim>\<open>move_to_ready\<close>
  raises \<^verbatim>\<open>FileExistsError\<close> and the state is unchanged (nothing copied, no sidecar
  written); with \<^verbatim>\<open>force\<close>, and a source file that can be read, it succeeds, the entry
  holds the source's bytes, and the sidecar is written beside it.
\<close>

theorem move_to_ready_conflict:
  assumes "map_of (ready w) (basename path) \<noteq> None"
  shows "move_to_ready L E path src False w = (Inl (FileExistsError (basename path)), w)
    \<and> (\<exists>w'. move_to_ready L E path (Inr data) True w
           = (Inr (basename path, basename path @ META_EXT), w')
         \<and> map_of (ready w') = (map_of (ready w))
             (basename path \<mapsto> data,
              basename path @ META_EXT \<mapsto>
                json_dump L [(''moved_at'', JStr (utcnow E (conns w))), (''src'', JStr path)])
         \<and> sent w' = sent w \<and> failed w' = failed w \<and> archive w' = archive w)"
  using assms
  by (simp add: move_to_ready_def Let_def update_conv')

theorem move_to_ready_conflict_witness:
  "map_of (ready w_queued) (basename (py ''generated/a.edi'')) \<noteq> None
   \<and> move_to_ready sample_lib env_ok (py ''generated/a.edi'') (Inr order_miscounted) False w_queued
       = (Inl (FileExistsError (py ''a.edi'')), w_queued)
   \<and> fst (move_to_ready sample_lib env_ok (py ''generated/a.edi'') (Inr order_miscounted) True
        w_queued) = Inr (py ''a.edi'', py ''a.edi.meta.json'')
   \<and> map_of (ready (snd (move_to_ready sample_lib env_ok (py ''generated/a.edi'')
        (Inr order_miscounted) True w_queued))) (py ''a.edi'') = Some order_miscounted"
proof -
  have b: "basename (py ''generated/a.edi'') = py ''a.edi''"
    by (simp add: basename_def py_def)
  have m: "py ''a.edi'' @ META_EXT = py ''a.edi.meta.json''"
    by (simp add: META_EXT_def py_def)
  have 1: "map_of (ready w_queued) (basename (py ''generated/a.edi'')) \<noteq> None"
    unfolding b by (simp add: w_queued_def)
  from move_to_ready_conflict [OF 1, of sample_lib env_ok "Inr order_miscounted" order_miscounted]
    META_EXT_nonempty [of "py ''a.edi''"] 1
  show ?thesis
    unfolding b m by auto
qed


subsection \<open>Claims about the orchestrator\<close>

text \<open>
  Sample surroundings: no connection is ever accepted; the first connection is refused
  and the later ones are answered.
\<close>

definition env_down :: environ where
  "env_down = \<lparr>network = (\<lambda>i. refused), utcnow = (\<lambda>i. py ''2024-05-01T10:00:00'')\<rparr>"

definition env_retry :: environ where
  "env_retry = \<lparr>network = (\<lambda>i. if i = 0 then refused else answering (ascii ''ACK'')),
     utcnow = (\<lambda>i. py ''2024-05-01T10:00:00'')\<rparr>"

lemma env_down_fails: "mllp_send (network env_down i) payload timeout tls = Inr None"
  by (simp add: env_down_def mllp_send_refused)

lemma env_retry_first: "mllp_send (network env_retry 0) payload timeout tls = Inr None"
  by (simp add: env_retry_def mllp_send_refused)

lemma env_retry_later:
  "0 < i \<Longrightarrow> mllp_send (network env_retry i) payload timeout tls = Inr (Some (ascii ''ACK''))"
proof -
  have "\<not> contains END_BLOCK (ascii ''ACK'')"
    by (simp add: contains_def END_BLOCK_def ascii_def)
  from mllp_send_answering [OF this] show ?thesis if "0 < i"
    using that by (simp add: env_retry_def)
qed

text \<open>
  C4. With at least one attempt allowed and a file that can be read: if the transport
  client returns no ACK at each of the N attempts, \<^verbatim>\<open>send_one_file\<close> returns failure after
  exactly N connections, with \<^verbatim>\<open>attempts\<close> equal to N and the no-ack error recorded; if it
  first returns an ACK at attempt K, with K at most N, \<^verbatim>\<open>send_one_file\<close> returns success
  after exactly K connections, with \<^verbatim>\<open>attempts\<close> equal to K and the decoded ACK in \<^verbatim>\<open>ack\<close>.
\<close>

theorem send_one_file_attempts:
  assumes "1 \<le> N"
  shows "((\<forall>i < nat N. mllp_send (network E (conns w + i)) payload timeout tls = Inr None) \<longrightarrow>
       (\<exists>m w'. send_one_file L E (Inr payload) timeout tls N w = (Inr (False, m), w')
          \<and> conns w' = conns w + nat N
          \<and> map_of m ''attempts'' = Some (JInt N)
          \<and> map_of m ''error'' = Some (JStr (py ''no_ack_or_timeout''))))
    \<and> (\<forall>K ack. 1 \<le> K \<and> K \<le> N
          \<and> (\<forall>i < nat K - 1. mllp_send (network E (conns w + i)) payload timeout tls = Inr None)
          \<and> mllp_send (network E (conns w + (nat K - 1))) payload timeout tls = Inr (Some ack) \<longrightarrow>
       (\<exists>m w'. send_one_file L E (Inr payload) timeout tls N w = (Inr (True, m), w')
          \<and> conns w' = conns w + nat K
          \<and> map_of m ''attempts'' = Some (JInt K)
          \<and> map_of m ''ack'' = Some (JStr (decode_utf8 L ack))))"
proof -
  have fail: "\<exists>m w'. send_one_file L E (Inr payload) timeout tls N w = (Inr (False, m), w')
          \<and> conns w' = conns w + nat N
          \<and> map_of m ''attempts'' = Some (JInt N)
          \<and> map_of m ''error'' = Some (JStr (py ''no_ack_or_timeout''))"
    if a: "\<forall>i < nat N. mllp_send (network E (conns w + i)) payload timeout tls = Inr None"
  proof -
    from a have "\<And>i. i < nat N \<Longrightarrow>
        mllp_send (network E (conns w + i)) payload timeout tls = Inr None"
      by blast
    from send_one_file_all_fail [OF assms this, of L] show ?thesis by force
  qed
  have ok: "\<exists>m w'. send_one_file L E (Inr payload) timeout tls N w = (Inr (True, m), w')
          \<and> conns w' = conns w + nat K
          \<and> map_of m ''attempts'' = Some (JInt K)
          \<and> map_of m ''ack'' = Some (JStr (decode_utf8 L ack))"
    if a: "1 \<le> K \<and> K \<le> N
          \<and> (\<forall>i < nat K - 1. mllp_send (network E (conns w + i)) payload timeout tls = Inr None)
          \<and> mllp_send (network E (conns w + (nat K - 1))) payload timeout tls = Inr (Some ack)"
    for K ack
  proof -
    from a have 1: "1 \<le> K" and 2: "K \<le> N"
      and 3: "\<And>i. i < nat K - 1 \<Longrightarrow>
        mllp_send (network E (conns w + i)) payload timeout tls = Inr None"
      and 4: "mllp_send (network E (conns w + (nat K - 1))) payload timeout tls = Inr (Some ack)"
      by blast+
    from send_one_file_ack_at [OF 1 2 3 4, of L] show ?thesis by force
  qed
  from fail ok show ?thesis by blast
qed

theorem send_one_file_attempts_witness:
  "(\<exists>m w'. send_one_file sample_lib env_down (Inr order_ok) 15 False 2 w_queued
        = (Inr (False, m), w')
      \<and> conns w' = 2
      \<and> map_of m ''attempts'' = Some (JInt 2)
      \<and> map_of m ''error'' = Some (JStr (py ''no_ack_or_timeout'')))
   \<and> (\<exists>m w'. send_one_file sample_lib env_retry (Inr order_ok) 15 False 3 w_queued
        = (Inr (True, m), w')
      \<and> conns w' = 2
      \<and> map_of m ''attempts'' = Some (JInt 2)
      \<and> map_of m ''ack'' = Some (JStr (py ''ACK'')))"
proof -
  have c: "conns w_queued = 0" by (simp add: w_queued_def)
  have d: "decode_utf8 sample_lib (ascii ''ACK'') = py ''ACK''"
    by (simp add: sample_lib_def ascii_def py_def)
  have "(1::int) \<le> 2" by simp
  from send_one_file_attempts [OF this, of env_down w_queued order_ok 15 False sample_lib]
  have 1: "\<exists>m w'. send_one_file sample_lib env_down (Inr order_ok) 15 False 2 w_queued
        = (Inr (False, m), w')
      \<and> conns w' = 2
      \<and> map_of m ''attempts'' = Some (JInt 2)
      \<and> map_of m ''error'' = Some (JStr (py ''no_ack_or_timeout''))"
    by (simp add: env_down_fails c numeral_2_eq_2)
  have "(1::int) \<le> 3" by simp
  from send_one_file_attempts [OF this, of env_retry w_queued order_ok 15 False sample_lib]
  have "1 \<le> (2::int) \<and> (2::int) \<le> 3
      \<and> (\<forall>i < nat 2 - 1. mllp_send (network env_retry (conns w_queued + i)) order_ok 15 False
            = Inr None)
      \<and> mllp_send (network env_retry (conns w_queued + (nat 2 - 1))) order_ok 15 False
          = Inr (Some (ascii ''ACK'')) \<longrightarrow>
       (\<exists>m w'. send_one_file sample_lib env_retry (Inr order_ok) 15 False 3 w_queued
            = (Inr (True, m), w')
          \<and> conns w' = conns w_queued + nat 2
          \<and> map_of m ''attempts'' = Some (JInt 2)
          \<and> map_of m ''ack'' = Some (JStr (decode_utf8 sample_lib (ascii ''ACK''))))"
    by blast
  then have 2: "\<exists>m w'. send_one_file sample_lib env_retry (Inr order_ok) 15 False 3 w_queued
        = (Inr (True, m), w')
      \<and> conns w' = 2
      \<and> map_of m ''attempts'' = Some (JInt 2)
      \<and> map_of m ''ack'' = Some (JStr (py ''ACK''))"
    by (simp add: c d env_retry_first env_retry_later numeral_2_eq_2)
  from 1 2 show ?thesis by blast
qed


text \<open>
  C8, as stated, fails: with one attempt allowed and no ACK, \<^verbatim>\<open>send_one_file\<close> makes its
  one connection, records the error, and still sleeps once before it returns failure.
\<close>

theorem backoff_after_last_counterexample:
  "send_one_file sample_lib env_down (Inr order_ok) 15 False 1 w_queued
     = (Inr (False,
          [(''attempts'', JInt 1), (''sent_at'', JStr (py ''2024-05-01T10:00:00'')),
           (''ack'', JNull), (''error'', JStr (py ''no_ack_or_timeout''))]),
        w_queued\<lparr>conns := 1, slept := 1\<rparr>)"
proof -
  from send_loop_no_ack [where attempt = 1 and max_attempts = 1 and E = env_down
      and w = w_queued and payload = order_ok and timeout = 15 and tls = False
      and L = sample_lib]
    send_loop_done [where attempt = 2 and max_attempts = 1 and L = sample_lib and E = env_down]
  show ?thesis
    by (simp add: send_one_file_def env_down_fails) (simp add: w_queued_def env_down_def)
qed

text \<open>
  C8, amended. Whenever an attempt obtains no ACK, the no-ack error is recorded and one
  second is slept before the loop goes on, whether or not an attempt remains: when all N
  attempts fail there are N sleeps, the last one after the final attempt; when the first
  ACK comes at attempt K there are K - 1.
\<close>

theorem backoff_after_every_failure:
  "(attempt \<le> max_attempts \<and> mllp_send (network E (conns w)) payload timeout tls = Inr None \<longrightarrow>
      send_loop L E (Inr payload) timeout tls max_attempts attempt meta w
        = send_loop L E (Inr payload) timeout tls max_attempts (attempt + 1)
            (AList.update ''error'' (JStr (py ''no_ack_or_timeout''))
              (AList.update ''sent_at'' (JStr (utcnow E (conns w + 1)))
                (AList.update ''attempts'' (JInt attempt) meta)))
            (w\<lparr>conns := conns w + 1, slept := slept w + 1\<rparr>))
   \<and> (1 \<le> N \<and> (\<forall>i < nat N. mllp_send (network E (conns w + i)) payload timeout tls = Inr None) \<longrightarrow>
       (\<exists>m w'. send_one_file L E (Inr payload) timeout tls N w = (Inr (False, m), w')
          \<and> slept w' = slept w + nat N
          \<and> map_of m ''error'' = Some (JStr (py ''no_ack_or_timeout''))))
   \<and> (1 \<le> K \<and> K \<le> N
        \<and> (\<forall>i < nat K - 1. mllp_send (network E (conns w + i)) payload timeout tls = Inr None)
        \<and> mllp_send (network E (conns w + (nat K - 1))) payload timeout tls = Inr (Some ack) \<longrightarrow>
       (\<exists>m w'. send_one_file L E (Inr payload) timeout tls N w = (Inr (True, m), w')
          \<and> slept w' = slept w + (nat K - 1)))"
proof -
  have fail: "\<exists>m w'. send_one_file L E (Inr payload) timeout tls N w = (Inr (False, m), w')
          \<and> slept w' = slept w + nat N
          \<and> map_of m ''error'' = Some (JStr (py ''no_ack_or_timeout''))"
    if a: "1 \<le> N
      \<and> (\<forall>i < nat N. mllp_send (network E (conns w + i)) payload timeout tls = Inr None)"
  proof -
    from a have 1: "1 \<le> N" and 2: "\<And>i. i < nat N \<Longrightarrow>
        mllp_send (network E (conns w + i)) payload timeout tls = Inr None"
      by blast+
    from send_one_file_all_fail [OF 1 2, of L] show ?thesis by force
  qed
  have ok: "\<exists>m w'. send_one_file L E (Inr payload) timeout tls N w = (Inr (True, m), w')
          \<and> slept w' = slept w + (nat K - 1)"
    if a: "1 \<le> K \<and> K \<le> N
          \<and> (\<forall>i < nat K - 1. mllp_send (network E (conns w + i)) payload timeout tls = Inr None)
          \<and> mllp_send (network E (conns w + (nat K - 1))) payload timeout tls = Inr (Some ack)"
  proof -
    from a have 1: "1 \<le> K" and 2: "K \<le> N"
      and 3: "\<And>i. i < nat K - 1 \<Longrightarrow>
        mllp_send (network E (conns w + i)) payload timeout tls = Inr None"
      and 4: "mllp_send (network E (conns w + (nat K - 1))) payload timeout tls = Inr (Some ack)"
      by blast+
    from send_one_file_ack_at [OF 1 2 3 4, of L] show ?thesis by force
  qed
  from fail ok send_loop_no_ack [of attempt max_attempts E w payload timeout tls L meta]
  show ?thesis by blast
qed

theorem backoff_after_every_failure_witness:
  "(\<exists>m w'. send_one_file sample_lib env_down (Inr order_ok) 15 False 2 w_queued
        = (Inr (False, m), w')
      \<and> slept w' = 2
      \<and> map_of m ''error'' = Some (JStr (py ''no_ack_or_timeout'')))
   \<and> (\<exists>m w'. send_one_file sample_lib env_retry (Inr order_ok) 15 False 3 w_queued
        = (Inr (True, m), w')
      \<and> slept w' = 1)"
proof -
  have c: "conns w_queued = 0" "slept w_queued = 0" by (simp_all add: w_queued_def)
  from backoff_after_every_failure
    [of 1 1 env_down w_queued order_ok 15 False sample_lib "[]" 2 2 "[]"]
  have 1: "\<exists>m w'. send_one_file sample_lib env_down (Inr order_ok) 15 False 2 w_queued
        = (Inr (False, m), w')
      \<and> slept w' = 2
      \<and> map_of m ''error'' = Some (JStr (py ''no_ack_or_timeout''))"
    by (simp add: env_down_fails c numeral_2_eq_2)
  from backoff_after_every_failure
    [of 1 1 env_retry w_queued order_ok 15 False sample_lib "[]" 3 2 "ascii ''ACK''"]
  have "1 \<le> (2::int) \<and> (2::int) \<le> 3
        \<and> (\<forall>i < nat 2 - 1. mllp_send (network env_retry (conns w_queued + i)) order_ok 15 False
              = Inr None)
        \<and> mllp_send (network env_retry (conns w_queued + (nat 2 - 1))) order_ok 15 False
            = Inr (Some (ascii ''ACK'')) \<longrightarrow>
       (\<exists>m w'. send_one_file sample_lib env_retry (Inr order_ok) 15 False 3 w_queued
            = (Inr (True, m), w')
          \<and> slept w' = slept w_queued + (nat 2 - 1))"
    by blast
  then have 2: "\<exists>m w'. send_one_file sample_lib env_retry (Inr order_ok) 15 False 3 w_queued
        = (Inr (True, m), w')
      \<and> slept w' = 1"
    by (simp add: c env_retry_first env_retry_later numeral_2_eq_2)
  from 1 2 show ?thesis by blast
qed

text \<open>
  C10. When \<^verbatim>\<open>send_one_file\<close> succeeds at an attempt K after the first, the dictionary
  it returns with the success holds the decoded ACK and still holds the error string that
  the failed attempts recorded.
\<close>

theorem success_keeps_error:
  assumes "1 < K" and "K \<le> N"
    and "\<forall>i < nat K - 1. mllp_send (network E (conns w + i)) payload timeout tls = Inr None"
    and "mllp_send (network E (conns w + (nat K - 1))) payload timeout tls = Inr (Some ack)"
  shows "\<exists>m w'. send_one_file L E (Inr payload) timeout tls N w = (Inr (True, m), w')
    \<and> map_of m ''attempts'' = Some (JInt K)
    \<and> map_of m ''ack'' = Some (JStr (decode_utf8 L ack))
    \<and> map_of m ''error'' = Some (JStr (py ''no_ack_or_timeout''))"
proof -
  from assms(1) have 1: "1 \<le> K" by simp
  from assms(3) have 3: "\<And>i. i < nat K - 1 \<Longrightarrow>
      mllp_send (network E (conns w + i)) payload timeout tls = Inr None"
    by blast
  from send_one_file_ack_at [OF 1 assms(2) 3 assms(4), of L] assms(1) show ?thesis
    by force
qed

theorem success_keeps_error_witness:
  "\<exists>m w'. send_one_file sample_lib env_retry (Inr order_ok) 15 False 3 w_queued
      = (Inr (True, m), w')
    \<and> map_of m ''attempts'' = Some (JInt 2)
    \<and> map_of m ''ack'' = Some (JStr (py ''ACK''))
    \<and> map_of m ''error'' = Some (JStr (py ''no_ack_or_timeout''))"
proof -
  have c: "conns w_queued = 0" by (simp add: w_queued_def)
  have d: "decode_utf8 sample_lib (ascii ''ACK'') = py ''ACK''"
    by (simp add: sample_lib_def ascii_def py_def)
  have 1: "(1::int) < 2" and 2: "(2::int) \<le> 3" by simp_all
  have 3: "\<forall>i < nat 2 - 1.
      mllp_send (network env_retry (conns w_queued + i)) order_ok 15 False = Inr None"
    by (simp add: c env_retry_first)
  have 4: "mllp_send (network env_retry (conns w_queued + (nat 2 - 1))) order_ok 15 False
      = Inr (Some (ascii ''ACK''))"
    by (simp add: c env_retry_later)
  from success_keeps_error [OF 1 2 3 4, of sample_lib] show ?thesis
    unfolding d .
qed

end
